theory Spec2Isabelle
  imports Main "HOL-Library.Word"
begin

unbundle bit_operations_syntax

section \<open>DVI constants\<close>

text \<open>
  The embedding follows \<^verbatim>\<open>dvi_out_hstx_encoder.c\<close>. C's \<^verbatim>\<open>uint\<close>, \<^verbatim>\<open>uint32_t\<close> and the
  unsigned literals are \<open>32 word\<close>; the \<^verbatim>\<open>MODE_*\<close> macros are plain \<^verbatim>\<open>int\<close> literals
  and are converted with \<open>word_of_int\<close> where C's usual arithmetic conversions
  convert them to unsigned.
\<close>

type_synonym u8 = "8 word"
type_synonym u16 = "16 word"
type_synonym u32 = "32 word"

definition TMDS_CTRL_00 :: u32 where "TMDS_CTRL_00 = 0x354"
definition TMDS_CTRL_01 :: u32 where "TMDS_CTRL_01 = 0x0ab"
definition TMDS_CTRL_10 :: u32 where "TMDS_CTRL_10 = 0x154"
definition TMDS_CTRL_11 :: u32 where "TMDS_CTRL_11 = 0x2ab"

definition SYNC_V0_H0 :: u32 where
  "SYNC_V0_H0 = TMDS_CTRL_00 OR push_bit 10 TMDS_CTRL_00 OR push_bit 20 TMDS_CTRL_00"
definition SYNC_V0_H1 :: u32 where
  "SYNC_V0_H1 = TMDS_CTRL_01 OR push_bit 10 TMDS_CTRL_00 OR push_bit 20 TMDS_CTRL_00"
definition SYNC_V1_H0 :: u32 where
  "SYNC_V1_H0 = TMDS_CTRL_10 OR push_bit 10 TMDS_CTRL_00 OR push_bit 20 TMDS_CTRL_00"
definition SYNC_V1_H1 :: u32 where
  "SYNC_V1_H1 = TMDS_CTRL_11 OR push_bit 10 TMDS_CTRL_00 OR push_bit 20 TMDS_CTRL_00"

definition MODE_H_SYNC_POLARITY :: int where "MODE_H_SYNC_POLARITY = 0"
definition MODE_H_FRONT_PORCH :: int where "MODE_H_FRONT_PORCH = 16"
definition MODE_H_SYNC_WIDTH :: int where "MODE_H_SYNC_WIDTH = 96"
definition MODE_H_BACK_PORCH :: int where "MODE_H_BACK_PORCH = 48"
definition MODE_H_ACTIVE_PIXELS :: int where "MODE_H_ACTIVE_PIXELS = 640"

definition MODE_V_SYNC_POLARITY :: int where "MODE_V_SYNC_POLARITY = 0"
definition MODE_V_FRONT_PORCH :: int where "MODE_V_FRONT_PORCH = 10"
definition MODE_V_SYNC_WIDTH :: int where "MODE_V_SYNC_WIDTH = 2"
definition MODE_V_BACK_PORCH :: int where "MODE_V_BACK_PORCH = 33"
definition MODE_V_ACTIVE_LINES :: int where "MODE_V_ACTIVE_LINES = 480"

definition MODE_H_TOTAL_PIXELS :: int where
  "MODE_H_TOTAL_PIXELS =
     MODE_H_FRONT_PORCH + MODE_H_SYNC_WIDTH + MODE_H_BACK_PORCH + MODE_H_ACTIVE_PIXELS"
definition MODE_V_TOTAL_LINES :: int where
  "MODE_V_TOTAL_LINES =
     MODE_V_FRONT_PORCH + MODE_V_SYNC_WIDTH + MODE_V_BACK_PORCH + MODE_V_ACTIVE_LINES"

definition HSTX_CMD_RAW :: u32 where "HSTX_CMD_RAW = push_bit 12 0x0"
definition HSTX_CMD_RAW_REPEAT :: u32 where "HSTX_CMD_RAW_REPEAT = push_bit 12 0x1"
definition HSTX_CMD_TMDS :: u32 where "HSTX_CMD_TMDS = push_bit 12 0x2"
definition HSTX_CMD_TMDS_REPEAT :: u32 where "HSTX_CMD_TMDS_REPEAT = push_bit 12 0x3"
definition HSTX_CMD_NOP :: u32 where "HSTX_CMD_NOP = push_bit 12 0xf"

section \<open>HSTX command lists\<close>

definition vblank_line_vsync_off :: "u32 list" where
  "vblank_line_vsync_off =
    [HSTX_CMD_RAW_REPEAT OR word_of_int MODE_H_FRONT_PORCH,
     SYNC_V1_H1,
     HSTX_CMD_RAW_REPEAT OR word_of_int MODE_H_SYNC_WIDTH,
     SYNC_V1_H0,
     HSTX_CMD_RAW_REPEAT OR word_of_int (MODE_H_BACK_PORCH + MODE_H_ACTIVE_PIXELS),
     SYNC_V1_H1,
     HSTX_CMD_NOP]"

definition vblank_line_vsync_on :: "u32 list" where
  "vblank_line_vsync_on =
    [HSTX_CMD_RAW_REPEAT OR word_of_int MODE_H_FRONT_PORCH,
     SYNC_V0_H1,
     HSTX_CMD_RAW_REPEAT OR word_of_int MODE_H_SYNC_WIDTH,
     SYNC_V0_H0,
     HSTX_CMD_RAW_REPEAT OR word_of_int (MODE_H_BACK_PORCH + MODE_H_ACTIVE_PIXELS),
     SYNC_V0_H1,
     HSTX_CMD_NOP]"

definition vactive_line :: "u32 list" where
  "vactive_line =
    [HSTX_CMD_RAW_REPEAT OR word_of_int MODE_H_FRONT_PORCH,
     SYNC_V1_H1,
     HSTX_CMD_NOP,
     HSTX_CMD_RAW_REPEAT OR word_of_int MODE_H_SYNC_WIDTH,
     SYNC_V1_H0,
     HSTX_CMD_NOP,
     HSTX_CMD_RAW_REPEAT OR word_of_int MODE_H_BACK_PORCH,
     SYNC_V1_H1,
     HSTX_CMD_TMDS OR word_of_int MODE_H_ACTIVE_PIXELS]"

text \<open>\<^verbatim>\<open>count_of(a)\<close>: the number of elements of an array, as the 32-bit \<^verbatim>\<open>size_t\<close>.\<close>

definition count_of :: "'a list \<Rightarrow> u32" where
  "count_of a = of_nat (length a)"

section \<open>Colour packing\<close>

text \<open>
  The \<^verbatim>\<open>uint8_t\<close> and \<^verbatim>\<open>uint16_t\<close> operands are promoted to \<^verbatim>\<open>int\<close> (32 bits; all
  values here are non-negative), the expression is evaluated there and the result is
  truncated to the return type.
\<close>

definition colour_rgb565 :: "u8 \<Rightarrow> u8 \<Rightarrow> u8 \<Rightarrow> u16" where
  "colour_rgb565 r g b =
     ucast (drop_bit 3 ((ucast (ucast r :: u16) :: u32) AND 0xf8)
            OR push_bit 3 ((ucast (ucast g :: u16) :: u32) AND 0xfc)
            OR push_bit 8 ((ucast (ucast b :: u16) :: u32) AND 0xf8))"

definition colour_rgb332 :: "u8 \<Rightarrow> u8 \<Rightarrow> u8 \<Rightarrow> u8" where
  "colour_rgb332 r g b =
     ucast (drop_bit 6 ((ucast r :: u32) AND 0xc0)
            OR drop_bit 3 ((ucast g :: u32) AND 0xe0)
            OR drop_bit 0 ((ucast b :: u32) AND 0xe0))"

text \<open>
  The decoders read the fields back from the positions the 2/3/3 and 5/6/5
  allocations name: red in the lowest bits, then green, then blue in the highest bits.
  Each returns the triple (red, green, blue) of field values.
\<close>

definition decode_rgb332 :: "u8 \<Rightarrow> u8 \<times> u8 \<times> u8" where
  "decode_rgb332 p = (p AND 0x3, drop_bit 2 p AND 0x7, drop_bit 5 p AND 0x7)"

definition decode_rgb565 :: "u16 \<Rightarrow> u8 \<times> u8 \<times> u8" where
  "decode_rgb565 p =
     (ucast (p AND 0x1f), ucast (drop_bit 5 p AND 0x3f), ucast (drop_bit 11 p AND 0x1f))"

section \<open>DMA logic\<close>

definition DMACH_PING :: nat where "DMACH_PING = 0"
definition DMACH_PONG :: nat where "DMACH_PONG = 1"

text \<open>
  The build is selected by the macro \<^verbatim>\<open>RBG332\<close>: defined, the 640x480 one-byte asset
  is shown; commented out, the 640x240 two-byte asset.
\<close>

datatype pixel_format = RBG332 | RGB565

text \<open>
  Addresses are symbolic: the start of one of the three command lists, the start of
  \<^verbatim>\<open>tempbuf\<close>, or \<^verbatim>\<open>&framebuf[i]\<close> for an element index \<open>i\<close>. \<open>Addr_reset\<close> is the
  content of a descriptor that was never programmed.
\<close>

datatype addr =
    Addr_reset
  | Addr_vblank_line_vsync_off
  | Addr_vblank_line_vsync_on
  | Addr_vactive_line
  | Addr_tempbuf
  | Addr_framebuf nat

record dma_channel_hw =
  read_addr :: addr
  transfer_count :: u32

text \<open>
  The process-wide state the handler touches: the three statics, the scratch row, the
  channel descriptors \<^verbatim>\<open>dma_hw->ch[]\<close> and the last value written to \<^verbatim>\<open>dma_hw->intr\<close>.
\<close>

record engine =
  dma_pong :: bool
  v_scanline :: u32
  vactive_cmdlist_posted :: bool
  tempbuf :: "u8 list"
  ch :: "nat \<Rightarrow> dma_channel_hw"
  intr :: u32

definition set_read_addr :: "nat \<Rightarrow> addr \<Rightarrow> engine \<Rightarrow> engine" where
  "set_read_addr n a s = s\<lparr>ch := (ch s)(n := (ch s n)\<lparr>read_addr := a\<rparr>)\<rparr>"

definition set_transfer_count :: "nat \<Rightarrow> u32 \<Rightarrow> engine \<Rightarrow> engine" where
  "set_transfer_count n c s = s\<lparr>ch := (ch s)(n := (ch s n)\<lparr>transfer_count := c\<rparr>)\<rparr>"

text \<open>
  Reading \<^verbatim>\<open>*ptr\<close> past the end of the asset, or writing \<^verbatim>\<open>tempbuf[i]\<close> past the end
  of the scratch row, is undefined behaviour in C; the model makes each a fault.
\<close>

datatype fault = Framebuf_out_of_bounds | Tempbuf_overflow

text \<open>
  \<^verbatim>\<open>for (int i = 0; i < 640; i++) tempbuf[i] = *ptr++;\<close> with \<open>ptr\<close> the index into
  the asset (one byte per element) that the pointer stands at.
\<close>

function copy_loop :: "u8 list \<Rightarrow> nat \<Rightarrow> nat \<Rightarrow> u8 list \<Rightarrow> fault + u8 list" where
  "copy_loop framebuf ptr i tb =
     (if i < 640 then
        (if length framebuf \<le> ptr then Inl Framebuf_out_of_bounds
         else if length tb \<le> i then Inl Tempbuf_overflow
         else copy_loop framebuf (ptr + 1) (i + 1) (tb[i := framebuf ! ptr]))
      else Inr tb)"
  by pat_completeness auto
termination
  by (relation "measure (\<lambda>(framebuf, ptr, i, tb). 640 - i)") auto

declare copy_loop.simps [simp del]

text \<open>The pixel phase of the handler: the body of its last \<^verbatim>\<open>else\<close> up to the flag.\<close>

definition post_pixel_row :: "pixel_format \<Rightarrow> u8 list \<Rightarrow> nat \<Rightarrow> engine \<Rightarrow> fault + engine" where
  "post_pixel_row fmt framebuf ch_num s =
     (case fmt of
        RBG332 \<Rightarrow>
          (let s1 = set_read_addr ch_num Addr_tempbuf s;
               ptr = unat ((v_scanline s1 - word_of_int (MODE_V_TOTAL_LINES - MODE_V_ACTIVE_LINES))
                           * word_of_int MODE_H_ACTIVE_PIXELS)
           in case copy_loop framebuf ptr 0 (tempbuf s1) of
                Inl e \<Rightarrow> Inl e
              | Inr tb \<Rightarrow>
                  Inr (set_transfer_count ch_num (word_of_int MODE_H_ACTIVE_PIXELS div 4)
                         (s1\<lparr>tempbuf := tb\<rparr>)))
      | RGB565 \<Rightarrow>
          (let s1 =
                 (if word_of_int (523 - 480 + 240) < v_scanline s then
                    set_read_addr ch_num
                      (Addr_framebuf (unat ((v_scanline s - 239
                           - word_of_int (MODE_V_TOTAL_LINES - MODE_V_ACTIVE_LINES))
                          * word_of_int MODE_H_ACTIVE_PIXELS * 2))) s
                  else
                    set_read_addr ch_num
                      (Addr_framebuf (unat ((v_scanline s
                           - word_of_int (MODE_V_TOTAL_LINES - MODE_V_ACTIVE_LINES))
                          * word_of_int MODE_H_ACTIVE_PIXELS * 2))) s)
           in Inr (set_transfer_count ch_num (word_of_int (MODE_H_ACTIVE_PIXELS * 2) div 4) s1)))"

definition dma_irq_handler :: "pixel_format \<Rightarrow> u8 list \<Rightarrow> engine \<Rightarrow> fault + engine" where
  "dma_irq_handler fmt framebuf s0 =
     (let ch_num = (if dma_pong s0 then DMACH_PONG else DMACH_PING);
          s1 = s0\<lparr>intr := push_bit ch_num 1\<rparr>;
          s = s1\<lparr>dma_pong := \<not> dma_pong s1\<rparr>;
          r =
            (if word_of_int MODE_V_FRONT_PORCH \<le> v_scanline s
                \<and> v_scanline s < word_of_int (MODE_V_FRONT_PORCH + MODE_V_SYNC_WIDTH) then
               Inr (set_transfer_count ch_num (count_of vblank_line_vsync_on)
                      (set_read_addr ch_num Addr_vblank_line_vsync_on s))
             else if v_scanline s
                < word_of_int (MODE_V_FRONT_PORCH + MODE_V_SYNC_WIDTH + MODE_V_BACK_PORCH) then
               Inr (set_transfer_count ch_num (count_of vblank_line_vsync_off)
                      (set_read_addr ch_num Addr_vblank_line_vsync_off s))
             else if \<not> vactive_cmdlist_posted s then
               Inr ((set_transfer_count ch_num (count_of vactive_line)
                      (set_read_addr ch_num Addr_vactive_line s))
                    \<lparr>vactive_cmdlist_posted := True\<rparr>)
             else
               (case post_pixel_row fmt framebuf ch_num s of
                  Inl e \<Rightarrow> Inl e
                | Inr s2 \<Rightarrow> Inr (s2\<lparr>vactive_cmdlist_posted := False\<rparr>)))
      in case r of
           Inl e \<Rightarrow> Inl e
         | Inr s3 \<Rightarrow>
             Inr (if \<not> vactive_cmdlist_posted s3 then
                    s3\<lparr>v_scanline := (v_scanline s3 + 1) mod word_of_int MODE_V_TOTAL_LINES\<rparr>
                  else s3))"

text \<open>
  The state when the first interrupt arrives: the static initialisers, and both channels
  as \<^verbatim>\<open>core1_main\<close> configures them (each reading \<^verbatim>\<open>vblank_line_vsync_off\<close>).
\<close>

definition init_engine :: engine where
  "init_engine =
     \<lparr>dma_pong = False,
      v_scanline = 2,
      vactive_cmdlist_posted = False,
      tempbuf = replicate 640 0,
      ch = (\<lambda>n. if n = DMACH_PING \<or> n = DMACH_PONG
                 then \<lparr>read_addr = Addr_vblank_line_vsync_off,
                       transfer_count = count_of vblank_line_vsync_off\<rparr>
                 else \<lparr>read_addr = Addr_reset, transfer_count = 0\<rparr>),
      intr = 0\<rparr>"

text \<open>\<open>run fmt framebuf n s\<close>: \<open>n\<close> invocations of the handler in a row, from \<open>s\<close>.\<close>

fun run :: "pixel_format \<Rightarrow> u8 list \<Rightarrow> nat \<Rightarrow> engine \<Rightarrow> fault + engine" where
  "run fmt framebuf 0 s = Inr s"
| "run fmt framebuf (Suc n) s =
     (case dma_irq_handler fmt framebuf s of
        Inl e \<Rightarrow> Inl e
      | Inr s' \<Rightarrow> run fmt framebuf n s')"

section \<open>Notions the properties are stated with\<close>

text \<open>The channel an invocation reloads: the handler's \<^verbatim>\<open>ch_num\<close>.\<close>

definition ch_sel :: "engine \<Rightarrow> nat" where
  "ch_sel s = (if dma_pong s then DMACH_PONG else DMACH_PING)"

text \<open>
  Modelled from the spec: the image headers \<^verbatim>\<open>mario_640x480_rgb332.h\<close> and
  \<^verbatim>\<open>mario_640x240_rgb565.h\<close> are not among the sources. The asset is a flat row-major
  byte array of width x height x bytes-per-pixel; the handler's own comment gives the
  two-byte asset 640 x 240 pixels.
\<close>

definition framebuf_size :: "pixel_format \<Rightarrow> nat" where
  "framebuf_size fmt = (case fmt of RBG332 \<Rightarrow> 640 * 480 * 1 | RGB565 \<Rightarrow> 640 * 240 * 2)"

text \<open>
  The states the handler is meant to see: the scanline index below the vertical total,
  the header flag set only inside the active region, the scratch row 640 bytes long.
\<close>

definition engine_ok :: "engine \<Rightarrow> bool" where
  "engine_ok s \<longleftrightarrow>
     unat (v_scanline s) < 525
     \<and> (vactive_cmdlist_posted s \<longrightarrow> 45 \<le> unat (v_scanline s))
     \<and> length (tempbuf s) = 640"

text \<open>
  The number of interrupts in one vertical period (one per blanking line, two per active
  line), and the position of a state inside the period.
\<close>

definition irqs_per_frame :: nat where
  "irqs_per_frame = nat (MODE_V_TOTAL_LINES - MODE_V_ACTIVE_LINES) + 2 * nat MODE_V_ACTIVE_LINES"

definition irq_slot :: "engine \<Rightarrow> nat" where
  "irq_slot s =
     (if unat (v_scanline s) < 45 then unat (v_scanline s)
      else 45 + 2 * (unat (v_scanline s) - 45) + (if vactive_cmdlist_posted s then 1 else 0))"

text \<open>
  What one invocation hands to the DMA: the descriptor it wrote into the reloaded
  channel and, when that descriptor reads the scratch row, the bytes staged there.
  \<open>None\<close> when the invocation faults.
\<close>

definition payload :: "pixel_format \<Rightarrow> u8 list \<Rightarrow> engine \<Rightarrow> (dma_channel_hw \<times> u8 list) option" where
  "payload fmt framebuf s =
     (case dma_irq_handler fmt framebuf s of
        Inl e \<Rightarrow> None
      | Inr s' \<Rightarrow>
          Some (ch s' (ch_sel s),
                if read_addr (ch s' (ch_sel s)) = Addr_tempbuf then tempbuf s' else []))"

text \<open>The payloads of \<open>n\<close> invocations in a row, the first one from \<open>s\<close>.\<close>

definition payloads ::
  "pixel_format \<Rightarrow> u8 list \<Rightarrow> nat \<Rightarrow> engine \<Rightarrow> (dma_channel_hw \<times> u8 list) option list" where
  "payloads fmt framebuf n s =
     map (\<lambda>k. case run fmt framebuf k s of
                Inl e \<Rightarrow> None
              | Inr t \<Rightarrow> payload fmt framebuf t) [0..<n]"

text \<open>
  The chaining \<^verbatim>\<open>core1_main\<close> configures: \<^verbatim>\<open>channel_config_set_chain_to\<close> makes each of
  the two channels trigger the other when it completes, and \<^verbatim>\<open>dma_channel_start\<close> starts
  with the ping channel. \<open>transferring k\<close> is the channel that is transferring once
  \<open>k\<close> transfers have completed. Interrupt \<open>k + 1\<close> is raised by completion \<open>k + 1\<close> and
  is served while that channel transfers.
\<close>

definition chain_to :: "nat \<Rightarrow> nat" where
  "chain_to c = (if c = DMACH_PING then DMACH_PONG else DMACH_PING)"

fun transferring :: "nat \<Rightarrow> nat" where
  "transferring 0 = DMACH_PING"
| "transferring (Suc k) = chain_to (transferring k)"

text \<open>
  Reading a command list. A word with opcode \<^verbatim>\<open>HSTX_CMD_RAW_REPEAT\<close> in bits 12 to 15
  holds a repeat count in bits 0 to 11 and is followed by the data word to repeat;
  \<^verbatim>\<open>HSTX_CMD_NOP\<close> stands alone; \<^verbatim>\<open>HSTX_CMD_TMDS\<close> holds the number of pixels that follow
  in the stream.
\<close>

datatype hstx_item = Hold nat u32 | Nop | Pixels nat

definition cmd_opcode :: "u32 \<Rightarrow> u32" where
  "cmd_opcode w = push_bit 12 (take_bit 4 (drop_bit 12 w))"

definition cmd_count :: "u32 \<Rightarrow> nat" where
  "cmd_count w = unat (take_bit 12 w)"

fun read_list :: "u32 list \<Rightarrow> hstx_item list option" where
  "read_list [] = Some []"
| "read_list (w # ws) =
     (if cmd_opcode w = HSTX_CMD_RAW_REPEAT then
        (case ws of
           [] \<Rightarrow> None
         | d # rest \<Rightarrow> map_option (\<lambda>xs. Hold (cmd_count w) d # xs) (read_list rest))
      else if cmd_opcode w = HSTX_CMD_NOP then
        map_option (\<lambda>xs. Nop # xs) (read_list ws)
      else if cmd_opcode w = HSTX_CMD_TMDS then
        map_option (\<lambda>xs. Pixels (cmd_count w) # xs) (read_list ws)
      else None)"

text \<open>
  The sync word for a pair of levels. Both polarities are 0
  (\<^verbatim>\<open>MODE_V_SYNC_POLARITY\<close>, \<^verbatim>\<open>MODE_H_SYNC_POLARITY\<close>): a sync signal is asserted when
  its level is 0, so \<^verbatim>\<open>SYNC_V0_H1\<close> is vsync asserted with hsync inactive.
\<close>

definition sync_word :: "bool \<Rightarrow> bool \<Rightarrow> u32" where
  "sync_word vsync_asserted hsync_asserted =
     (if vsync_asserted = (MODE_V_SYNC_POLARITY = 0)
      then (if hsync_asserted = (MODE_H_SYNC_POLARITY = 0) then SYNC_V0_H0 else SYNC_V0_H1)
      else (if hsync_asserted = (MODE_H_SYNC_POLARITY = 0) then SYNC_V1_H0 else SYNC_V1_H1))"

text \<open>The 10-bit field of a word at a bit offset.\<close>

definition field10 :: "nat \<Rightarrow> u32 \<Rightarrow> u32" where
  "field10 k w = take_bit 10 (drop_bit k w)"

text \<open>
  Three states on the way from the initial state: after the first interrupt, after the
  43rd, when the first active line begins, and after the 44th, when the header of that
  line is posted and its pixel row is due.
\<close>

definition engine43 :: engine where
  "engine43 = init_engine\<lparr>intr := 1, dma_pong := True,
       ch := (ch init_engine)
          (DMACH_PONG := \<lparr>read_addr = Addr_vblank_line_vsync_off, transfer_count = 7\<rparr>,
           DMACH_PING := \<lparr>read_addr = Addr_vblank_line_vsync_off, transfer_count = 7\<rparr>),
       v_scanline := 45\<rparr>"

definition engine1 :: engine where
  "engine1 = init_engine\<lparr>intr := 1, dma_pong := True,
       ch := (ch init_engine)(DMACH_PING :=
          \<lparr>read_addr = Addr_vblank_line_vsync_off, transfer_count = 7\<rparr>),
       v_scanline := 3\<rparr>"

definition engine44 :: engine where
  "engine44 = init_engine\<lparr>intr := 2, dma_pong := False,
       ch := (ch init_engine)
          (DMACH_PING := \<lparr>read_addr = Addr_vblank_line_vsync_off, transfer_count = 7\<rparr>,
           DMACH_PONG := \<lparr>read_addr = Addr_vactive_line, transfer_count = 9\<rparr>),
       v_scanline := 45, vactive_cmdlist_posted := True\<rparr>"

section \<open>Basic facts about the handler\<close>

lemmas mode_defs =
  MODE_H_FRONT_PORCH_def MODE_H_SYNC_WIDTH_def MODE_H_BACK_PORCH_def MODE_H_ACTIVE_PIXELS_def
  MODE_V_FRONT_PORCH_def MODE_V_SYNC_WIDTH_def MODE_V_BACK_PORCH_def MODE_V_ACTIVE_LINES_def
  MODE_H_TOTAL_PIXELS_def MODE_V_TOTAL_LINES_def

lemma count_of_tables:
  "count_of vblank_line_vsync_on = 7" "count_of vblank_line_vsync_off = 7"
  "count_of vactive_line = 9"
  by (simp_all add: count_of_def vblank_line_vsync_on_def vblank_line_vsync_off_def
        vactive_line_def)

lemma copy_loop_ok:
  "i \<le> 640 \<Longrightarrow> length tb = 640 \<Longrightarrow> ptr + (640 - i) \<le> length fb \<Longrightarrow>
   copy_loop fb ptr i tb = Inr (take i tb @ take (640 - i) (drop ptr fb))"
proof (induction fb ptr i tb rule: copy_loop.induct)
  case (1 fb ptr i tb)
  show ?case
  proof (cases "i < 640")
    case False
    with 1 show ?thesis by (simp add: copy_loop.simps)
  next
    case True
    with 1(3,4) have a: "\<not> length fb \<le> ptr" "\<not> length tb \<le> i" by auto
    have ih: "copy_loop fb (ptr + 1) (i + 1) (tb[i := fb ! ptr]) =
          Inr (take (i + 1) (tb[i := fb ! ptr]) @ take (640 - (i + 1)) (drop (ptr + 1) fb))"
      using 1 True a by (intro "1.IH") auto
    have b: "take (i + 1) (tb[i := fb ! ptr]) = take i tb @ [fb ! ptr]"
      using True 1(3) by (simp add: take_Suc_conv_app_nth)
    have c: "take (640 - i) (drop ptr fb) = fb ! ptr # take (640 - (i + 1)) (drop (ptr + 1) fb)"
      using True a
      by (metis Cons_nth_drop_Suc Suc_diff_Suc Suc_eq_plus1 linorder_not_le take_Suc_Cons)
    show ?thesis
      using True a ih b c by (subst copy_loop.simps) simp
  qed
qed

lemma copy_loop_fault:
  "i < 640 \<Longrightarrow> length tb = 640 \<Longrightarrow> length fb < ptr + (640 - i) \<Longrightarrow>
   copy_loop fb ptr i tb = Inl Framebuf_out_of_bounds"
proof (induction fb ptr i tb rule: copy_loop.induct)
  case (1 fb ptr i tb)
  show ?case
  proof (cases "length fb \<le> ptr")
    case True
    with 1(2) show ?thesis by (subst copy_loop.simps) simp
  next
    case False
    have i: "i + 1 < 640" using 1(2,4) False by auto
    have "copy_loop fb (ptr + 1) (i + 1) (tb[i := fb ! ptr]) = Inl Framebuf_out_of_bounds"
      using 1 False i by (intro "1.IH") auto
    then show ?thesis using 1(2,3) False by (subst copy_loop.simps) simp
  qed
qed


lemma v_windows:
  "((10::u32) \<le> v \<and> v < 12) = (10 \<le> unat v \<and> unat v < 12)"
  "(v < (45::u32)) = (unat v < 45)"
  "((283::u32) < v) = (283 < unat v)"
  by (simp_all add: word_le_nat_alt word_less_nat_alt)

lemma chan_upd:
  "(c::dma_channel_hw)\<lparr>read_addr := a, transfer_count := n\<rparr> = \<lparr>read_addr = a, transfer_count = n\<rparr>"
  by simp


lemma handler_vsync_on:
  assumes "10 \<le> unat (v_scanline s)" "unat (v_scanline s) < 12"
  shows "dma_irq_handler fmt fb s =
     Inr (s\<lparr>intr := push_bit (ch_sel s) 1,
            dma_pong := \<not> dma_pong s,
            ch := (ch s)(ch_sel s := \<lparr>read_addr = Addr_vblank_line_vsync_on, transfer_count = 7\<rparr>),
            v_scanline := (if vactive_cmdlist_posted s then v_scanline s
                           else (v_scanline s + 1) mod 525)\<rparr>)"
  using assms
  by (simp add: dma_irq_handler_def Let_def mode_defs v_windows set_read_addr_def
      set_transfer_count_def count_of_tables ch_sel_def chan_upd)

lemma handler_vsync_off:
  assumes "\<not> (10 \<le> unat (v_scanline s) \<and> unat (v_scanline s) < 12)" "unat (v_scanline s) < 45"
  shows "dma_irq_handler fmt fb s =
     Inr (s\<lparr>intr := push_bit (ch_sel s) 1,
            dma_pong := \<not> dma_pong s,
            ch := (ch s)(ch_sel s := \<lparr>read_addr = Addr_vblank_line_vsync_off, transfer_count = 7\<rparr>),
            v_scanline := (if vactive_cmdlist_posted s then v_scanline s
                           else (v_scanline s + 1) mod 525)\<rparr>)"
proof -
  from assms(1) have "unat (v_scanline s) < 10 \<or> 12 \<le> unat (v_scanline s)" by auto
  then show ?thesis
  proof
    assume "unat (v_scanline s) < 10"
    then show ?thesis
      by (simp add: dma_irq_handler_def Let_def mode_defs v_windows set_read_addr_def
          set_transfer_count_def count_of_tables ch_sel_def chan_upd)
  next
    assume "12 \<le> unat (v_scanline s)"
    with assms(2) show ?thesis
      by (simp add: dma_irq_handler_def Let_def mode_defs v_windows set_read_addr_def
          set_transfer_count_def count_of_tables ch_sel_def chan_upd)
  qed
qed

lemma handler_header:
  assumes "45 \<le> unat (v_scanline s)" "\<not> vactive_cmdlist_posted s"
  shows "dma_irq_handler fmt fb s =
     Inr (s\<lparr>intr := push_bit (ch_sel s) 1,
            dma_pong := \<not> dma_pong s,
            ch := (ch s)(ch_sel s := \<lparr>read_addr = Addr_vactive_line, transfer_count = 9\<rparr>),
            vactive_cmdlist_posted := True\<rparr>)"
  using assms
  by (simp add: dma_irq_handler_def Let_def mode_defs v_windows set_read_addr_def
      set_transfer_count_def count_of_tables ch_sel_def chan_upd)

lemma handler_pixels:
  assumes "45 \<le> unat (v_scanline s)" "vactive_cmdlist_posted s"
  shows "dma_irq_handler fmt fb s =
     (case post_pixel_row fmt fb (ch_sel s)
             (s\<lparr>intr := push_bit (ch_sel s) 1, dma_pong := \<not> dma_pong s\<rparr>) of
        Inl e \<Rightarrow> Inl e
      | Inr s2 \<Rightarrow> Inr (s2\<lparr>vactive_cmdlist_posted := False,
                          v_scanline := (v_scanline s2 + 1) mod 525\<rparr>))"
  using assms
  by (simp add: dma_irq_handler_def Let_def mode_defs v_windows ch_sel_def split: sum.splits)


lemma mode_words:
  "word_of_int (MODE_V_TOTAL_LINES - MODE_V_ACTIVE_LINES) = (45::u32)"
  "word_of_int MODE_H_ACTIVE_PIXELS = (640::u32)"
  "word_of_int (523 - 480 + 240) = (283::u32)"
  by (simp_all add: mode_defs)

lemma unat_mult_small:
  fixes a b :: u32
  shows "unat a * unat b < 2 ^ 32 \<Longrightarrow> unat (a * b) = unat a * unat b"
  using unat_mult_lem [of a b] by simp

lemma unat_sub_small:
  fixes a b :: u32
  shows "unat b \<le> unat a \<Longrightarrow> unat (a - b) = unat a - unat b"
  by (simp add: unat_sub word_le_nat_alt)

lemma unat_row332:
  fixes v :: u32
  assumes "45 \<le> unat v" "unat v < 525"
  shows "unat ((v - word_of_int (MODE_V_TOTAL_LINES - MODE_V_ACTIVE_LINES))
               * word_of_int MODE_H_ACTIVE_PIXELS) = (unat v - 45) * 640"
proof -
  have a: "unat (v - 45) = unat v - 45"
    using assms by (subst unat_sub_small) simp_all
  have m: "unat ((v - 45) * 640) = unat (v - 45) * unat (640 :: u32)"
    using assms a by (intro unat_mult_small) simp
  show ?thesis unfolding mode_words m a by simp
qed

lemma unat_row565_hi:
  fixes v :: u32
  assumes "284 \<le> unat v" "unat v < 525"
  shows "unat ((v - 239 - word_of_int (MODE_V_TOTAL_LINES - MODE_V_ACTIVE_LINES))
               * word_of_int MODE_H_ACTIVE_PIXELS * 2) = (unat v - 284) * 1280"
proof -
  have a1: "unat (v - 239) = unat v - 239"
    using assms by (subst unat_sub_small) simp_all
  have a2: "unat (v - 239 - 45) = unat v - 239 - 45"
    using assms a1 by (subst unat_sub_small) simp_all
  have m1: "unat ((v - 239 - 45) * 640) = unat (v - 239 - 45) * unat (640 :: u32)"
    using assms a2 by (intro unat_mult_small) simp
  have m2: "unat ((v - 239 - 45) * 640 * 2) = unat ((v - 239 - 45) * 640) * unat (2 :: u32)"
    using assms a2 m1 by (intro unat_mult_small) simp
  show ?thesis unfolding mode_words m2 m1 a2 by simp
qed

lemma unat_row565_lo:
  fixes v :: u32
  assumes "45 \<le> unat v" "unat v < 525"
  shows "unat ((v - word_of_int (MODE_V_TOTAL_LINES - MODE_V_ACTIVE_LINES))
               * word_of_int MODE_H_ACTIVE_PIXELS * 2) = (unat v - 45) * 1280"
proof -
  have a: "unat (v - 45) = unat v - 45"
    using assms by (subst unat_sub_small) simp_all
  have m1: "unat ((v - 45) * 640) = unat (v - 45) * unat (640 :: u32)"
    using assms a by (intro unat_mult_small) simp
  have m2: "unat ((v - 45) * 640 * 2) = unat ((v - 45) * 640) * unat (2 :: u32)"
    using assms a m1 by (intro unat_mult_small) simp
  show ?thesis unfolding mode_words m2 m1 a by simp
qed

lemma count332: "(word_of_int MODE_H_ACTIVE_PIXELS div 4 :: u32) = 160"
  by (simp add: mode_defs)

lemma count565: "(word_of_int (MODE_H_ACTIVE_PIXELS * 2) div 4 :: u32) = 320"
  by (simp add: mode_defs)

lemma post_pixel_row_332:
  assumes "45 \<le> unat (v_scanline s)" "unat (v_scanline s) < 525" "length (tempbuf s) = 640"
    and "(unat (v_scanline s) - 45) * 640 + 640 \<le> length fb"
  shows "post_pixel_row RBG332 fb n s =
     Inr (s\<lparr>ch := (ch s)(n := \<lparr>read_addr = Addr_tempbuf, transfer_count = 160\<rparr>),
            tempbuf := take 640 (drop ((unat (v_scanline s) - 45) * 640) fb)\<rparr>)"
proof -
  have p: "unat ((v_scanline (set_read_addr n Addr_tempbuf s)
                   - word_of_int (MODE_V_TOTAL_LINES - MODE_V_ACTIVE_LINES))
                 * word_of_int MODE_H_ACTIVE_PIXELS) = (unat (v_scanline s) - 45) * 640"
    using assms(1,2) by (subst unat_row332) (simp_all add: set_read_addr_def)
  have c: "copy_loop fb ((unat (v_scanline s) - 45) * 640) 0
             (tempbuf (set_read_addr n Addr_tempbuf s)) =
        Inr (take 640 (drop ((unat (v_scanline s) - 45) * 640) fb))"
    using assms copy_loop_ok [of 0 "tempbuf s" "(unat (v_scanline s) - 45) * 640" fb]
    by (simp add: set_read_addr_def)
  show ?thesis
    unfolding post_pixel_row_def Let_def pixel_format.case p c sum.case count332
    by (simp add: set_read_addr_def set_transfer_count_def chan_upd)
qed

lemma post_pixel_row_332_fault:
  assumes "45 \<le> unat (v_scanline s)" "unat (v_scanline s) < 525" "length (tempbuf s) = 640"
    and "length fb < (unat (v_scanline s) - 45) * 640 + 640"
  shows "post_pixel_row RBG332 fb n s = Inl Framebuf_out_of_bounds"
proof -
  have p: "unat ((v_scanline (set_read_addr n Addr_tempbuf s)
                   - word_of_int (MODE_V_TOTAL_LINES - MODE_V_ACTIVE_LINES))
                 * word_of_int MODE_H_ACTIVE_PIXELS) = (unat (v_scanline s) - 45) * 640"
    using assms(1,2) by (subst unat_row332) (simp_all add: set_read_addr_def)
  have c: "copy_loop fb ((unat (v_scanline s) - 45) * 640) 0
             (tempbuf (set_read_addr n Addr_tempbuf s)) = Inl Framebuf_out_of_bounds"
    using assms copy_loop_fault [of 0 "tempbuf s" fb "(unat (v_scanline s) - 45) * 640"]
    by (simp add: set_read_addr_def)
  show ?thesis
    unfolding post_pixel_row_def Let_def pixel_format.case p c sum.case
    by simp
qed

lemma post_pixel_row_565:
  assumes "45 \<le> unat (v_scanline s)" "unat (v_scanline s) < 525"
  shows "post_pixel_row RGB565 fb n s =
     Inr (s\<lparr>ch := (ch s)(n := \<lparr>read_addr =
               Addr_framebuf (if 283 < unat (v_scanline s)
                              then (unat (v_scanline s) - 284) * 1280
                              else (unat (v_scanline s) - 45) * 1280),
             transfer_count = 320\<rparr>)\<rparr>)"
proof (cases "283 < unat (v_scanline s)")
  case True
  then have w: "(283::u32) < v_scanline s" by (simp add: v_windows)
  have p: "unat ((v_scanline s - 239 - word_of_int (MODE_V_TOTAL_LINES - MODE_V_ACTIVE_LINES))
               * word_of_int MODE_H_ACTIVE_PIXELS * 2) = (unat (v_scanline s) - 284) * 1280"
    using True assms by (intro unat_row565_hi) simp_all
  show ?thesis
    unfolding post_pixel_row_def Let_def pixel_format.case p count565 mode_words(3)
    using w True by (simp add: set_read_addr_def set_transfer_count_def chan_upd)
next
  case False
  then have w: "\<not> (283::u32) < v_scanline s" by (simp add: v_windows)
  have p: "unat ((v_scanline s - word_of_int (MODE_V_TOTAL_LINES - MODE_V_ACTIVE_LINES))
               * word_of_int MODE_H_ACTIVE_PIXELS * 2) = (unat (v_scanline s) - 45) * 1280"
    using assms by (intro unat_row565_lo) simp_all
  show ?thesis
    unfolding post_pixel_row_def Let_def pixel_format.case p count565 mode_words(3)
    using w False by (simp add: set_read_addr_def set_transfer_count_def chan_upd)
qed


lemma next_line_small:
  fixes v :: u32
  shows "unat v < 525 \<Longrightarrow> unat ((v + 1) mod 525) = (unat v + 1) mod 525"
proof -
  assume a: "unat v < 525"
  have "unat (v + 1) = unat v + 1"
    using a by (simp add: unat_word_ariths)
  then show ?thesis by (simp add: unat_mod_distrib)
qed

lemma handler_pixels_332:
  assumes "45 \<le> unat (v_scanline s)" "unat (v_scanline s) < 525" "vactive_cmdlist_posted s"
    and "length (tempbuf s) = 640"
    and "(unat (v_scanline s) - 45) * 640 + 640 \<le> length fb"
  shows "dma_irq_handler RBG332 fb s =
     Inr (s\<lparr>intr := push_bit (ch_sel s) 1,
            dma_pong := \<not> dma_pong s,
            ch := (ch s)(ch_sel s := \<lparr>read_addr = Addr_tempbuf, transfer_count = 160\<rparr>),
            tempbuf := take 640 (drop ((unat (v_scanline s) - 45) * 640) fb),
            vactive_cmdlist_posted := False,
            v_scanline := (v_scanline s + 1) mod 525\<rparr>)"
  using assms
  by (simp add: handler_pixels post_pixel_row_332)

lemma handler_pixels_332_fault:
  assumes "45 \<le> unat (v_scanline s)" "unat (v_scanline s) < 525" "vactive_cmdlist_posted s"
    and "length (tempbuf s) = 640"
    and "length fb < (unat (v_scanline s) - 45) * 640 + 640"
  shows "dma_irq_handler RBG332 fb s = Inl Framebuf_out_of_bounds"
  using assms
  by (simp add: handler_pixels post_pixel_row_332_fault)

lemma handler_pixels_565:
  assumes "45 \<le> unat (v_scanline s)" "unat (v_scanline s) < 525" "vactive_cmdlist_posted s"
  shows "dma_irq_handler RGB565 fb s =
     Inr (s\<lparr>intr := push_bit (ch_sel s) 1,
            dma_pong := \<not> dma_pong s,
            ch := (ch s)(ch_sel s := \<lparr>read_addr =
               Addr_framebuf (if 283 < unat (v_scanline s)
                              then (unat (v_scanline s) - 284) * 1280
                              else (unat (v_scanline s) - 45) * 1280),
               transfer_count = 320\<rparr>),
            vactive_cmdlist_posted := False,
            v_scanline := (v_scanline s + 1) mod 525\<rparr>)"
  using assms
  by (simp add: handler_pixels post_pixel_row_565)

lemma irqs_per_frame_eq: "irqs_per_frame = 1005"
  by (simp add: irqs_per_frame_def mode_defs)

lemma framebuf_size_eq: "framebuf_size RBG332 = 307200" "framebuf_size RGB565 = 307200"
  by (simp_all add: framebuf_size_def)

lemma engine_ok_init: "engine_ok init_engine"
  by (simp add: engine_ok_def init_engine_def)

lemma irq_slot_init: "irq_slot init_engine = 2"
  by (simp add: irq_slot_def init_engine_def)

lemma engine_ok_cases [consumes 1, case_names vsync_on vsync_off header pixels]:
  assumes "engine_ok s"
    and "\<lbrakk>10 \<le> unat (v_scanline s); unat (v_scanline s) < 12; \<not> vactive_cmdlist_posted s\<rbrakk> \<Longrightarrow> P"
    and "\<lbrakk>\<not> (10 \<le> unat (v_scanline s) \<and> unat (v_scanline s) < 12); unat (v_scanline s) < 45;
          \<not> vactive_cmdlist_posted s\<rbrakk> \<Longrightarrow> P"
    and "\<lbrakk>45 \<le> unat (v_scanline s); unat (v_scanline s) < 525; \<not> vactive_cmdlist_posted s\<rbrakk> \<Longrightarrow> P"
    and "\<lbrakk>45 \<le> unat (v_scanline s); unat (v_scanline s) < 525; vactive_cmdlist_posted s\<rbrakk> \<Longrightarrow> P"
  shows P
  using assms unfolding engine_ok_def
  by (cases "unat (v_scanline s) < 45"; cases "vactive_cmdlist_posted s";
      cases "10 \<le> unat (v_scanline s) \<and> unat (v_scanline s) < 12") auto

lemma handler_pixels_Inr:
  assumes "45 \<le> unat (v_scanline s)" "unat (v_scanline s) < 525" "vactive_cmdlist_posted s"
    and "length (tempbuf s) = 640" and "dma_irq_handler fmt fb s = Inr s'"
  shows "v_scanline s' = (v_scanline s + 1) mod 525" "\<not> vactive_cmdlist_posted s'"
    "length (tempbuf s') = 640" "dma_pong s' = (\<not> dma_pong s)"
    "\<forall>k. k \<noteq> ch_sel s \<longrightarrow> ch s' k = ch s k"
    "intr s' = push_bit (ch_sel s) 1"
proof -
  have *: "v_scanline s' = (v_scanline s + 1) mod 525 \<and> \<not> vactive_cmdlist_posted s'
     \<and> length (tempbuf s') = 640 \<and> dma_pong s' = (\<not> dma_pong s)
     \<and> (\<forall>k. k \<noteq> ch_sel s \<longrightarrow> ch s' k = ch s k) \<and> intr s' = push_bit (ch_sel s) 1"
  proof (cases fmt)
    case RGB565
    with assms show ?thesis by (auto simp: handler_pixels_565)
  next
    case RBG332
    show ?thesis
    proof (cases "(unat (v_scanline s) - 45) * 640 + 640 \<le> length fb")
      case True
      with assms RBG332 show ?thesis by (auto simp: handler_pixels_332)
    next
      case False
      with assms RBG332 show ?thesis by (auto simp: handler_pixels_332_fault)
    qed
  qed
  from * show "v_scanline s' = (v_scanline s + 1) mod 525" "\<not> vactive_cmdlist_posted s'"
    "length (tempbuf s') = 640" "dma_pong s' = (\<not> dma_pong s)"
    "\<forall>k. k \<noteq> ch_sel s \<longrightarrow> ch s' k = ch s k"
    "intr s' = push_bit (ch_sel s) 1" by simp_all
qed

lemma engine_step:
  assumes "engine_ok s" "dma_irq_handler fmt fb s = Inr s'"
  shows "engine_ok s' \<and> irq_slot s' = (irq_slot s + 1) mod irqs_per_frame"
  using assms(1)
proof (cases rule: engine_ok_cases)
  case vsync_on
  with assms show ?thesis
    by (auto simp: handler_vsync_on engine_ok_def irq_slot_def irqs_per_frame_eq next_line_small)
next
  case vsync_off
  with assms show ?thesis
    by (auto simp: handler_vsync_off engine_ok_def irq_slot_def irqs_per_frame_eq next_line_small)
next
  case header
  with assms show ?thesis
    by (auto simp: handler_header engine_ok_def irq_slot_def irqs_per_frame_eq)
next
  case pixels
  have l: "length (tempbuf s) = 640" using assms(1) by (simp add: engine_ok_def)
  note f = handler_pixels_Inr [OF pixels l assms(2)]
  have u: "unat (v_scanline s') = (unat (v_scanline s) + 1) mod 525"
    using f(1) pixels(2) by (simp add: next_line_small)
  show ?thesis
  proof (cases "unat (v_scanline s) = 524")
    case True
    with u f pixels show ?thesis
      by (simp add: engine_ok_def irq_slot_def irqs_per_frame_eq)
  next
    case False
    with pixels have "unat (v_scanline s) + 1 < 525" by simp
    with u f pixels show ?thesis
      by (simp add: engine_ok_def irq_slot_def irqs_per_frame_eq)
  qed
qed

lemma engine_step_total:
  assumes "engine_ok s" "length fb = framebuf_size fmt"
  shows "\<exists>s'. dma_irq_handler fmt fb s = Inr s'"
  using assms(1)
proof (cases rule: engine_ok_cases)
  case vsync_on
  then show ?thesis by (simp add: handler_vsync_on)
next
  case vsync_off
  then show ?thesis by (simp add: handler_vsync_off)
next
  case header
  then show ?thesis by (simp add: handler_header)
next
  case pixels
  have l: "length (tempbuf s) = 640" using assms(1) by (simp add: engine_ok_def)
  show ?thesis
  proof (cases fmt)
    case RGB565
    with pixels show ?thesis by (simp add: handler_pixels_565)
  next
    case RBG332
    have "(unat (v_scanline s) - 45) * 640 + 640 \<le> length fb"
      using pixels assms(2) RBG332 by (simp add: framebuf_size_eq)
    with pixels l RBG332 show ?thesis by (simp add: handler_pixels_332)
  qed
qed

lemma run_engine_ok:
  "engine_ok s \<Longrightarrow> run fmt fb n s = Inr t \<Longrightarrow>
   engine_ok t \<and> irq_slot t = (irq_slot s + n) mod irqs_per_frame"
proof (induction n arbitrary: s)
  case 0
  then show ?case
    by (auto simp: irqs_per_frame_eq irq_slot_def engine_ok_def)
next
  case (Suc n)
  from Suc.prems(2) obtain s' where h: "dma_irq_handler fmt fb s = Inr s'"
    and r: "run fmt fb n s' = Inr t"
    by (auto split: sum.splits)
  from engine_step [OF Suc.prems(1) h]
  have ok: "engine_ok s'" and sl: "irq_slot s' = (irq_slot s + 1) mod irqs_per_frame" by simp_all
  from Suc.IH [OF ok r] have "engine_ok t"
    and "irq_slot t = (irq_slot s' + n) mod irqs_per_frame" by simp_all
  then show ?case using sl by (simp add: mod_add_left_eq)
qed

lemma run_total:
  "engine_ok s \<Longrightarrow> length fb = framebuf_size fmt \<Longrightarrow> \<exists>t. run fmt fb n s = Inr t"
proof (induction n arbitrary: s)
  case 0
  then show ?case by simp
next
  case (Suc n)
  from engine_step_total [OF Suc.prems] obtain s' where h: "dma_irq_handler fmt fb s = Inr s'"
    by blast
  from engine_step [OF Suc.prems(1) h] have "engine_ok s'" by simp
  from Suc.IH [OF this Suc.prems(2)] h show ?case by simp
qed

lemma run_add:
  "run fmt fb (m + n) s = (case run fmt fb m s of Inl e \<Rightarrow> Inl e | Inr t \<Rightarrow> run fmt fb n t)"
  by (induction m arbitrary: s) (auto split: sum.splits)

lemma irq_slot_inj:
  assumes "engine_ok s" "engine_ok t" "irq_slot s = irq_slot t"
  shows "v_scanline s = v_scanline t \<and> vactive_cmdlist_posted s = vactive_cmdlist_posted t"
proof -
  have "unat (v_scanline s) = unat (v_scanline t)
        \<and> vactive_cmdlist_posted s = vactive_cmdlist_posted t"
    using assms unfolding engine_ok_def irq_slot_def
    by (auto split: if_splits) presburger+
  then show ?thesis by (simp add: word_unat_eq_iff)
qed


section \<open>Colour packing round trip\<close>

lemma masks8: "(0x3::u8) = mask 2" "(0x7::u8) = mask 3"
  by (simp_all add: mask_eq_exp_minus_1)

lemma masks16: "(0x1f::u16) = mask 5" "(0x3f::u16) = mask 6"
  by (simp_all add: mask_eq_exp_minus_1)

lemma masks32:
  "(0xc0::u32) = push_bit 6 (mask 2)" "(0xe0::u32) = push_bit 5 (mask 3)"
  "(0xf8::u32) = push_bit 3 (mask 5)" "(0xfc::u32) = push_bit 2 (mask 6)"
  by (simp_all add: mask_eq_exp_minus_1)

lemma decode_colour_rgb332:
  "decode_rgb332 (colour_rgb332 r g b) = (drop_bit 6 r, drop_bit 5 g, drop_bit 5 b)"
  unfolding decode_rgb332_def colour_rgb332_def masks8 masks32
  apply (simp add: prod_eq_iff)
  apply (intro conjI; rule bit_word_eqI)
    apply (auto simp add: bit_simps dest: bit_imp_le_length)
  done

lemma decode_colour_rgb565:
  "decode_rgb565 (colour_rgb565 r g b) = (drop_bit 3 r, drop_bit 2 g, drop_bit 3 b)"
  unfolding decode_rgb565_def colour_rgb565_def masks16 masks32
  apply (simp add: prod_eq_iff)
  apply (intro conjI; rule bit_word_eqI)
    apply (auto simp add: bit_simps dest: bit_imp_le_length)
  done

text \<open>
  C6. For all 8-bit \<open>r\<close>, \<open>g\<close>, \<open>b\<close>: decoding \<open>colour_rgb332 r g b\<close> gives back the top
  2 bits of \<open>r\<close>, the top 3 bits of \<open>g\<close> and the top 3 bits of \<open>b\<close>; decoding
  \<open>colour_rgb565 r g b\<close> gives back the top 5 bits of \<open>r\<close>, the top 6 bits of \<open>g\<close> and
  the top 5 bits of \<open>b\<close>. The top \<open>k\<close> bits of a byte \<open>x\<close> are \<open>drop_bit (8 - k) x\<close>.
\<close>

theorem colour_packing_roundtrip:
  "decode_rgb332 (colour_rgb332 r g b) = (drop_bit 6 r, drop_bit 5 g, drop_bit 5 b)
   \<and> decode_rgb565 (colour_rgb565 r g b) = (drop_bit 3 r, drop_bit 2 g, drop_bit 3 b)"
  by (simp add: decode_colour_rgb332 decode_colour_rgb565)

section \<open>Region classification\<close>

lemma post_pixel_row_addr:
  assumes "post_pixel_row fmt fb n s = Inr s'"
  shows "read_addr (ch s' n) = Addr_tempbuf \<or> (\<exists>i. read_addr (ch s' n) = Addr_framebuf i)"
  using assms
  by (auto simp: post_pixel_row_def Let_def set_read_addr_def set_transfer_count_def
      split: pixel_format.splits sum.splits if_splits)

lemma payload_vsync_on:
  assumes "10 \<le> unat (v_scanline s)" "unat (v_scanline s) < 12"
  shows "payload fmt fb s =
    Some (\<lparr>read_addr = Addr_vblank_line_vsync_on, transfer_count = 7\<rparr>, [])"
  using assms by (simp add: payload_def handler_vsync_on)

lemma payload_vsync_off:
  assumes "\<not> (10 \<le> unat (v_scanline s) \<and> unat (v_scanline s) < 12)" "unat (v_scanline s) < 45"
  shows "payload fmt fb s =
    Some (\<lparr>read_addr = Addr_vblank_line_vsync_off, transfer_count = 7\<rparr>, [])"
  using assms by (simp add: payload_def handler_vsync_off)

lemma payload_header:
  assumes "45 \<le> unat (v_scanline s)" "\<not> vactive_cmdlist_posted s"
  shows "payload fmt fb s =
    Some (\<lparr>read_addr = Addr_vactive_line, transfer_count = 9\<rparr>, [])"
  using assms by (simp add: payload_def handler_header)

lemma payload_pixels_addr:
  assumes "45 \<le> unat (v_scanline s)" "vactive_cmdlist_posted s"
  shows "map_option (read_addr \<circ> fst) (payload fmt fb s) \<notin>
    {Some Addr_vblank_line_vsync_on, Some Addr_vblank_line_vsync_off, Some Addr_vactive_line}"
proof (cases "post_pixel_row fmt fb (ch_sel s)
             (s\<lparr>intr := push_bit (ch_sel s) 1, dma_pong := \<not> dma_pong s\<rparr>)")
  case (Inl e)
  with assms show ?thesis by (simp add: payload_def handler_pixels)
next
  case (Inr s2)
  from post_pixel_row_addr [OF Inr] Inr assms show ?thesis
    by (auto simp: payload_def handler_pixels)
qed

text \<open>
  C3. With the configured VGA timing the horizontal total is 800 pixels and the vertical
  total 525 lines, and for every state the handler posts the blanking-with-vsync list
  exactly for scanlines 10 and 11, the blanking-without-vsync list exactly for the other
  scanlines below 45 (so from index 12 on), and the active-line header exactly for
  scanlines from 45 on whose header is not yet posted.
\<close>

theorem vga_timing_regions:
  "MODE_H_TOTAL_PIXELS = 800 \<and> MODE_V_TOTAL_LINES = 525
   \<and> (map_option (read_addr \<circ> fst) (payload fmt fb s) = Some Addr_vblank_line_vsync_on)
        = (10 \<le> unat (v_scanline s) \<and> unat (v_scanline s) < 12)
   \<and> (map_option (read_addr \<circ> fst) (payload fmt fb s) = Some Addr_vblank_line_vsync_off)
        = (unat (v_scanline s) < 10 \<or> (12 \<le> unat (v_scanline s) \<and> unat (v_scanline s) < 45))
   \<and> (map_option (read_addr \<circ> fst) (payload fmt fb s) = Some Addr_vactive_line)
        = (45 \<le> unat (v_scanline s) \<and> \<not> vactive_cmdlist_posted s)"
proof -
  have t: "MODE_H_TOTAL_PIXELS = 800 \<and> MODE_V_TOTAL_LINES = 525"
    by (simp add: mode_defs)
  consider (a) "10 \<le> unat (v_scanline s)" "unat (v_scanline s) < 12"
    | (b) "\<not> (10 \<le> unat (v_scanline s) \<and> unat (v_scanline s) < 12)" "unat (v_scanline s) < 45"
    | (c) "45 \<le> unat (v_scanline s)" "\<not> vactive_cmdlist_posted s"
    | (d) "45 \<le> unat (v_scanline s)" "vactive_cmdlist_posted s"
    by linarith
  then show ?thesis
  proof cases
    case a
    then show ?thesis using t by (simp add: payload_vsync_on)
  next
    case b
    then show ?thesis using t by (auto simp: payload_vsync_off)
  next
    case c
    then show ?thesis using t by (simp add: payload_header)
  next
    case d
    from payload_pixels_addr [OF d, of fmt fb] d t show ?thesis by auto
  qed
qed

section \<open>The command lists\<close>

lemmas sync_defs = SYNC_V0_H0_def SYNC_V0_H1_def SYNC_V1_H0_def SYNC_V1_H1_def
  TMDS_CTRL_00_def TMDS_CTRL_01_def TMDS_CTRL_10_def TMDS_CTRL_11_def

lemmas cmd_defs = HSTX_CMD_RAW_REPEAT_def HSTX_CMD_NOP_def HSTX_CMD_TMDS_def

lemma sync_values:
  "SYNC_V0_H0 = 0x354D5354" "SYNC_V0_H1 = 0x354D50AB"
  "SYNC_V1_H0 = 0x354D5154" "SYNC_V1_H1 = 0x354D52AB"
  by (simp_all add: sync_defs)

lemma sync_fields:
  "field10 0 SYNC_V0_H0 = TMDS_CTRL_00" "field10 0 SYNC_V0_H1 = TMDS_CTRL_01"
  "field10 0 SYNC_V1_H0 = TMDS_CTRL_10" "field10 0 SYNC_V1_H1 = TMDS_CTRL_11"
  "field10 10 SYNC_V0_H0 = TMDS_CTRL_00" "field10 10 SYNC_V0_H1 = TMDS_CTRL_00"
  "field10 10 SYNC_V1_H0 = TMDS_CTRL_00" "field10 10 SYNC_V1_H1 = TMDS_CTRL_00"
  "field10 20 SYNC_V0_H0 = TMDS_CTRL_00" "field10 20 SYNC_V0_H1 = TMDS_CTRL_00"
  "field10 20 SYNC_V1_H0 = TMDS_CTRL_00" "field10 20 SYNC_V1_H1 = TMDS_CTRL_00"
  "drop_bit 30 SYNC_V0_H0 = 0" "drop_bit 30 SYNC_V0_H1 = 0"
  "drop_bit 30 SYNC_V1_H0 = 0" "drop_bit 30 SYNC_V1_H1 = 0"
  by (simp_all add: sync_values field10_def TMDS_CTRL_00_def TMDS_CTRL_01_def
      TMDS_CTRL_10_def TMDS_CTRL_11_def drop_bit_eq_div take_bit_eq_mod)

lemma sync_word_eq:
  "sync_word True True = SYNC_V0_H0" "sync_word True False = SYNC_V0_H1"
  "sync_word False True = SYNC_V1_H0" "sync_word False False = SYNC_V1_H1"
  by (simp_all add: sync_word_def MODE_V_SYNC_POLARITY_def MODE_H_SYNC_POLARITY_def)

lemma cmd_words:
  "HSTX_CMD_RAW_REPEAT OR word_of_int MODE_H_FRONT_PORCH = 0x1010"
  "HSTX_CMD_RAW_REPEAT OR word_of_int MODE_H_SYNC_WIDTH = 0x1060"
  "HSTX_CMD_RAW_REPEAT OR word_of_int (MODE_H_BACK_PORCH + MODE_H_ACTIVE_PIXELS) = 0x12B0"
  "HSTX_CMD_RAW_REPEAT OR word_of_int MODE_H_BACK_PORCH = 0x1030"
  "HSTX_CMD_TMDS OR word_of_int MODE_H_ACTIVE_PIXELS = 0x2280"
  "HSTX_CMD_NOP = 0xF000"
  by (simp_all add: cmd_defs mode_defs)

lemma cmd_ops: "HSTX_CMD_RAW_REPEAT = 0x1000" "HSTX_CMD_TMDS = 0x2000"
  by (simp_all add: cmd_defs)

lemma cmd_decode:
  "cmd_opcode 0x1010 = 0x1000" "cmd_count 0x1010 = 16"
  "cmd_opcode 0x1060 = 0x1000" "cmd_count 0x1060 = 96"
  "cmd_opcode 0x12B0 = 0x1000" "cmd_count 0x12B0 = 688"
  "cmd_opcode 0x1030 = 0x1000" "cmd_count 0x1030 = 48"
  "cmd_opcode 0x2280 = 0x2000" "cmd_count 0x2280 = 640"
  "cmd_opcode 0xF000 = 0xF000"
  by (simp_all add: cmd_opcode_def cmd_count_def drop_bit_eq_div take_bit_eq_mod push_bit_eq_mult)

lemma read_vblank_line_vsync_on:
  "read_list vblank_line_vsync_on =
     Some [Hold 16 (sync_word True False), Hold 96 (sync_word True True),
           Hold 688 (sync_word True False), Nop]"
  unfolding vblank_line_vsync_on_def cmd_words sync_word_eq
  by (simp add: cmd_decode cmd_ops cmd_words(6))

lemma read_vblank_line_vsync_off:
  "read_list vblank_line_vsync_off =
     Some [Hold 16 (sync_word False False), Hold 96 (sync_word False True),
           Hold 688 (sync_word False False), Nop]"
  unfolding vblank_line_vsync_off_def cmd_words sync_word_eq
  by (simp add: cmd_decode cmd_ops cmd_words(6))

lemma read_vactive_line:
  "read_list vactive_line =
     Some [Hold 16 (sync_word False False), Nop, Hold 96 (sync_word False True), Nop,
           Hold 48 (sync_word False False), Pixels 640]"
  unfolding vactive_line_def cmd_words sync_word_eq
  by (simp add: cmd_decode cmd_ops cmd_words(6))

text \<open>
  C8. The four sync constants are pairwise distinct and each packs three 10-bit TMDS
  control codes at bit offsets 0, 10 and 20 (nothing above bit 29);
  \<open>vblank_line_vsync_on\<close> holds (vsync asserted, hsync inactive) for 16 cycles, (vsync
  asserted, hsync asserted) for 96 cycles and (vsync asserted, hsync inactive) for
  48 + 640 = 688 cycles; \<open>vblank_line_vsync_off\<close> has the same structure with vsync
  deasserted; \<open>vactive_line\<close> has a no-op after the front-porch hold and after the
  sync-pulse hold, then the back-porch hold, and ends with the marker for 640 pixels.
\<close>

theorem command_tables_structure:
  "distinct [SYNC_V0_H0, SYNC_V0_H1, SYNC_V1_H0, SYNC_V1_H1]
   \<and> map (\<lambda>w. (field10 0 w, field10 10 w, field10 20 w, drop_bit 30 w))
        [SYNC_V0_H0, SYNC_V0_H1, SYNC_V1_H0, SYNC_V1_H1]
      = [(TMDS_CTRL_00, TMDS_CTRL_00, TMDS_CTRL_00, 0), (TMDS_CTRL_01, TMDS_CTRL_00, TMDS_CTRL_00, 0),
         (TMDS_CTRL_10, TMDS_CTRL_00, TMDS_CTRL_00, 0), (TMDS_CTRL_11, TMDS_CTRL_00, TMDS_CTRL_00, 0)]
   \<and> read_list vblank_line_vsync_on =
        Some [Hold 16 (sync_word True False), Hold 96 (sync_word True True),
              Hold (48 + 640) (sync_word True False), Nop]
   \<and> read_list vblank_line_vsync_off =
        Some [Hold 16 (sync_word False False), Hold 96 (sync_word False True),
              Hold (48 + 640) (sync_word False False), Nop]
   \<and> read_list vactive_line =
        Some [Hold 16 (sync_word False False), Nop, Hold 96 (sync_word False True), Nop,
              Hold 48 (sync_word False False), Pixels 640]"
proof -
  have d: "distinct [SYNC_V0_H0, SYNC_V0_H1, SYNC_V1_H0, SYNC_V1_H1]"
    by (simp add: sync_values)
  show ?thesis
    using d by (simp add: sync_fields read_vblank_line_vsync_on read_vblank_line_vsync_off
        read_vactive_line)
qed


section \<open>Evaluating the first interrupts\<close>

lemma init_fields:
  "dma_pong init_engine = False" "v_scanline init_engine = 2"
  "vactive_cmdlist_posted init_engine = False" "tempbuf init_engine = replicate 640 0"
  "intr init_engine = 0"
  "ch init_engine DMACH_PING = \<lparr>read_addr = Addr_vblank_line_vsync_off, transfer_count = 7\<rparr>"
  "ch init_engine DMACH_PONG = \<lparr>read_addr = Addr_vblank_line_vsync_off, transfer_count = 7\<rparr>"
  by (simp_all add: init_engine_def count_of_tables)

lemma ch_sel_simps:
  "dma_pong s \<Longrightarrow> ch_sel s = DMACH_PONG" "\<not> dma_pong s \<Longrightarrow> ch_sel s = DMACH_PING"
  by (simp_all add: ch_sel_def)

lemma dmach_simps:
  "DMACH_PING \<noteq> DMACH_PONG" "DMACH_PONG \<noteq> DMACH_PING"
  "push_bit DMACH_PING (1::u32) = 1" "push_bit DMACH_PONG (1::u32) = 2"
  "(2::u32) ^ DMACH_PING = 1" "(2::u32) ^ DMACH_PONG = 2"
  by (simp_all add: DMACH_PING_def DMACH_PONG_def)

lemma fun_upd_aba: "a \<noteq> b \<Longrightarrow> f(a := x, b := y, a := z) = f(b := y, a := z)"
  by (simp add: fun_eq_iff)

lemma run_numeral:
  "run fmt fb (numeral k) s =
     (case dma_irq_handler fmt fb s of
        Inl e \<Rightarrow> Inl e
      | Inr s' \<Rightarrow> run fmt fb (pred_numeral k) s')"
  by (simp add: numeral_eq_Suc)

lemmas eval_simps = run_numeral init_fields ch_sel_simps dmach_simps fun_upd_aba
  handler_vsync_on handler_vsync_off handler_header

lemma run1: "run fmt fb 1 init_engine = Inr engine1"
  by (simp add: eval_simps engine1_def)

lemma run44: "run fmt fb 44 init_engine = Inr engine44"
  by (simp add: eval_simps engine44_def)

lemma engine1_fields:
  "dma_pong engine1 = True" "v_scanline engine1 = 3"
  "vactive_cmdlist_posted engine1 = False" "tempbuf engine1 = replicate 640 0"
  by (simp_all add: engine1_def init_fields)

lemma engine44_fields:
  "dma_pong engine44 = False" "v_scanline engine44 = 45"
  "vactive_cmdlist_posted engine44 = True" "tempbuf engine44 = replicate 640 0"
  by (simp_all add: engine44_def init_fields)

section \<open>One step from a well-formed state\<close>

lemma total_lines_word: "(word_of_int MODE_V_TOTAL_LINES :: u32) = 525"
  by (simp add: mode_defs)

lemma engine_step_fields:
  assumes "engine_ok s" "dma_irq_handler fmt fb s = Inr s'"
  shows "vactive_cmdlist_posted s' = (45 \<le> unat (v_scanline s) \<and> \<not> vactive_cmdlist_posted s)"
    and "v_scanline s' = (if vactive_cmdlist_posted s' then v_scanline s
                          else (v_scanline s + 1) mod 525)"
    and "dma_pong s' = (\<not> dma_pong s)"
    and "ch s' = (ch s)(ch_sel s := ch s' (ch_sel s))"
    and "intr s' = push_bit (ch_sel s) 1"
proof -
  have "vactive_cmdlist_posted s' = (45 \<le> unat (v_scanline s) \<and> \<not> vactive_cmdlist_posted s)
      \<and> v_scanline s' = (if vactive_cmdlist_posted s' then v_scanline s
                          else (v_scanline s + 1) mod 525)
      \<and> dma_pong s' = (\<not> dma_pong s)
      \<and> ch s' = (ch s)(ch_sel s := ch s' (ch_sel s))
      \<and> intr s' = push_bit (ch_sel s) 1"
    using assms(1)
  proof (cases rule: engine_ok_cases)
    case vsync_on
    with assms(2) show ?thesis by (auto simp: handler_vsync_on)
  next
    case vsync_off
    with assms(2) show ?thesis by (auto simp: handler_vsync_off)
  next
    case header
    with assms(2) show ?thesis by (auto simp: handler_header)
  next
    case pixels
    have l: "length (tempbuf s) = 640" using assms(1) by (simp add: engine_ok_def)
    note f = handler_pixels_Inr [OF pixels l assms(2)]
    have "ch s' = (ch s)(ch_sel s := ch s' (ch_sel s))"
      using f(5) by (auto simp: fun_eq_iff)
    with f pixels show ?thesis by simp
  qed
  then show "vactive_cmdlist_posted s' = (45 \<le> unat (v_scanline s) \<and> \<not> vactive_cmdlist_posted s)"
    and "v_scanline s' = (if vactive_cmdlist_posted s' then v_scanline s
                          else (v_scanline s + 1) mod 525)"
    and "dma_pong s' = (\<not> dma_pong s)"
    and "ch s' = (ch s)(ch_sel s := ch s' (ch_sel s))"
    and "intr s' = push_bit (ch_sel s) 1"
    by simp_all
qed

lemma reachable_ok: "run fmt fb n init_engine = Inr s \<Longrightarrow> engine_ok s"
  using run_engine_ok [OF engine_ok_init] by blast

lemma slot_decode:
  assumes "engine_ok s"
  shows "unat (v_scanline s) = (if irq_slot s < 45 then irq_slot s else 45 + (irq_slot s - 45) div 2)"
    and "vactive_cmdlist_posted s = (45 \<le> irq_slot s \<and> odd (irq_slot s - 45))"
  using assms unfolding engine_ok_def irq_slot_def by (auto split: if_splits)


section \<open>Running from the initial state\<close>

lemma engine_step_total_gen:
  assumes "engine_ok s" "fmt = RBG332 \<Longrightarrow> length fb = framebuf_size fmt"
  shows "\<exists>s'. dma_irq_handler fmt fb s = Inr s'"
proof (cases fmt)
  case RBG332
  with assms show ?thesis by (intro engine_step_total) simp_all
next
  case RGB565
  from assms(1) show ?thesis
  proof (cases rule: engine_ok_cases)
    case vsync_on
    then show ?thesis by (simp add: handler_vsync_on)
  next
    case vsync_off
    then show ?thesis by (simp add: handler_vsync_off)
  next
    case header
    then show ?thesis by (simp add: handler_header)
  next
    case pixels
    with RGB565 show ?thesis by (simp add: handler_pixels_565)
  qed
qed

lemma run_total_gen:
  "engine_ok s \<Longrightarrow> (fmt = RBG332 \<Longrightarrow> length fb = framebuf_size fmt) \<Longrightarrow>
   \<exists>t. run fmt fb n s = Inr t"
proof (induction n arbitrary: s)
  case 0
  then show ?case by simp
next
  case (Suc n)
  from engine_step_total_gen [OF Suc.prems] obtain s' where h: "dma_irq_handler fmt fb s = Inr s'"
    by blast
  from engine_step [OF Suc.prems(1) h] have "engine_ok s'" by simp
  from Suc.IH [OF this Suc.prems(2)] h show ?case by simp
qed

lemma run_init_slot_gen:
  assumes "fmt = RBG332 \<Longrightarrow> length fb = framebuf_size fmt"
  shows "\<exists>s. run fmt fb n init_engine = Inr s \<and> engine_ok s \<and> irq_slot s = (2 + n) mod 1005"
proof -
  from run_total_gen [OF engine_ok_init assms] obtain s where s: "run fmt fb n init_engine = Inr s"
    by blast
  from run_engine_ok [OF engine_ok_init s] show ?thesis
    using s by (auto simp: irq_slot_init irqs_per_frame_eq)
qed

lemma run_1002:
  assumes "fmt = RBG332 \<Longrightarrow> length fb = framebuf_size fmt"
  shows "\<exists>s. run fmt fb 1002 init_engine = Inr s \<and> engine_ok s
           \<and> v_scanline s = 524 \<and> vactive_cmdlist_posted s"
proof -
  from run_init_slot_gen [OF assms, of 1002] obtain s
    where r: "run fmt fb 1002 init_engine = Inr s" and ok: "engine_ok s"
      and sl: "irq_slot s = 1004" by auto
  from slot_decode [OF ok] sl have "unat (v_scanline s) = unat (524 :: u32)"
    and f: "vactive_cmdlist_posted s" by simp_all
  then have "v_scanline s = 524" by (simp only: word_unat_eq_iff)
  with r ok f show ?thesis by blast
qed

section \<open>The scanline counter\<close>

text \<open>
  C5. The scanline counter starts at 2 and stays below the vertical total of 525 in the
  initial state and after every invocation of the handler (as an unsigned value it is
  never negative); an invocation either leaves it unchanged, when it sets the header
  flag, or replaces it by \<open>(v_scanline + 1) mod MODE_V_TOTAL_LINES\<close>, when the line is
  completed.
\<close>

theorem v_scanline_in_range:
  assumes "run fmt fb n init_engine = Inr s"
  shows "v_scanline init_engine = 2
     \<and> unat (v_scanline s) < nat MODE_V_TOTAL_LINES
     \<and> (\<forall>s'. dma_irq_handler fmt fb s = Inr s' \<longrightarrow>
          v_scanline s' = (if vactive_cmdlist_posted s' then v_scanline s
                           else (v_scanline s + 1) mod word_of_int MODE_V_TOTAL_LINES)
          \<and> unat (v_scanline s') < nat MODE_V_TOTAL_LINES)"
proof -
  have ok: "engine_ok s" using assms by (rule reachable_ok)
  have n: "nat MODE_V_TOTAL_LINES = 525" by (simp add: mode_defs)
  have a: "unat (v_scanline s) < 525" using ok by (simp add: engine_ok_def)
  have b: "v_scanline s' = (if vactive_cmdlist_posted s' then v_scanline s
                           else (v_scanline s + 1) mod 525)
           \<and> unat (v_scanline s') < 525"
    if h: "dma_irq_handler fmt fb s = Inr s'" for s'
  proof -
    from engine_step [OF ok h] have "engine_ok s'" by simp
    then have "unat (v_scanline s') < 525" by (simp add: engine_ok_def)
    with engine_step_fields(2) [OF ok h] show ?thesis by simp
  qed
  have i: "v_scanline init_engine = 2" by (simp add: init_fields)
  from i a b show ?thesis
    unfolding n total_lines_word by blast
qed

theorem v_scanline_in_range_witness:
  "run RBG332 [] 1 init_engine = Inr engine1
   \<and> unat (v_scanline engine1) < nat MODE_V_TOTAL_LINES
   \<and> (\<exists>s'. dma_irq_handler RBG332 [] engine1 = Inr s'
         \<and> \<not> vactive_cmdlist_posted s' \<and> v_scanline s' = 4
         \<and> unat (v_scanline s') < nat MODE_V_TOTAL_LINES)"
proof -
  have r: "run RBG332 [] 1 init_engine = Inr engine1" by (rule run1)
  obtain s' where h: "dma_irq_handler RBG332 [] engine1 = Inr s'"
    and f: "\<not> vactive_cmdlist_posted s'"
    by (simp add: handler_vsync_off engine1_fields)
  from v_scanline_in_range [OF r] h f
  have "unat (v_scanline engine1) < nat MODE_V_TOTAL_LINES"
    and "v_scanline s' = (v_scanline engine1 + 1) mod word_of_int MODE_V_TOTAL_LINES"
    and "unat (v_scanline s') < nat MODE_V_TOTAL_LINES"
    by auto
  then show ?thesis using r h f by (auto simp: engine1_fields total_lines_word)
qed

section \<open>The header flag\<close>

text \<open>
  C9. In every state reachable from the initial state the header flag is set only if the
  scanline is in the active region, 45 to 524; for a blanking scanline the handler
  therefore posts one of the two blanking lists, not a pixel row, and leaves the scratch
  row and the flag alone; and whenever an invocation changes the scanline, as the wrap
  from 524 to 0 does, the flag is clear afterwards.
\<close>

theorem header_flag_only_in_active_region:
  assumes "run fmt fb n init_engine = Inr s"
  shows "(vactive_cmdlist_posted s \<longrightarrow> 45 \<le> unat (v_scanline s) \<and> unat (v_scanline s) < 525)
     \<and> (unat (v_scanline s) < 45 \<longrightarrow>
          (\<exists>s'. dma_irq_handler fmt fb s = Inr s'
             \<and> (read_addr (ch s' (ch_sel s)) = Addr_vblank_line_vsync_on
                 \<or> read_addr (ch s' (ch_sel s)) = Addr_vblank_line_vsync_off)
             \<and> tempbuf s' = tempbuf s \<and> \<not> vactive_cmdlist_posted s'))
     \<and> (\<forall>s'. dma_irq_handler fmt fb s = Inr s' \<and> v_scanline s' \<noteq> v_scanline s
            \<longrightarrow> \<not> vactive_cmdlist_posted s')"
proof -
  have ok: "engine_ok s" using assms by (rule reachable_ok)
  have a: "vactive_cmdlist_posted s \<longrightarrow> 45 \<le> unat (v_scanline s) \<and> unat (v_scanline s) < 525"
    using ok by (simp add: engine_ok_def)
  have b: "\<exists>s'. dma_irq_handler fmt fb s = Inr s'
             \<and> (read_addr (ch s' (ch_sel s)) = Addr_vblank_line_vsync_on
                 \<or> read_addr (ch s' (ch_sel s)) = Addr_vblank_line_vsync_off)
             \<and> tempbuf s' = tempbuf s \<and> \<not> vactive_cmdlist_posted s'"
    if "unat (v_scanline s) < 45"
    using ok
  proof (cases rule: engine_ok_cases)
    case vsync_on
    then show ?thesis by (simp add: handler_vsync_on)
  next
    case vsync_off
    then show ?thesis by (simp add: handler_vsync_off)
  next
    case header
    with that show ?thesis by simp
  next
    case pixels
    with that show ?thesis by simp
  qed
  have c: "\<not> vactive_cmdlist_posted s'"
    if "dma_irq_handler fmt fb s = Inr s' \<and> v_scanline s' \<noteq> v_scanline s" for s'
    using engine_step_fields(2) [OF ok, of fmt fb s'] that by auto
  from a b c show ?thesis by blast
qed

theorem header_flag_only_in_active_region_witness:
  "run RGB565 [] 44 init_engine = Inr engine44
   \<and> vactive_cmdlist_posted engine44
   \<and> 45 \<le> unat (v_scanline engine44) \<and> unat (v_scanline engine44) < 525
   \<and> run RGB565 [] 1 init_engine = Inr engine1
   \<and> unat (v_scanline engine1) < 45
   \<and> (\<exists>s'. dma_irq_handler RGB565 [] engine1 = Inr s'
         \<and> read_addr (ch s' (ch_sel engine1)) = Addr_vblank_line_vsync_off
         \<and> tempbuf s' = tempbuf engine1 \<and> \<not> vactive_cmdlist_posted s')
   \<and> (\<exists>s s'. run RGB565 [] 1002 init_engine = Inr s \<and> v_scanline s = 524
         \<and> dma_irq_handler RGB565 [] s = Inr s' \<and> v_scanline s' = 0
         \<and> \<not> vactive_cmdlist_posted s')"
proof -
  have r44: "run RGB565 [] 44 init_engine = Inr engine44" by (rule run44)
  have r1: "run RGB565 [] 1 init_engine = Inr engine1" by (rule run1)
  have a: "45 \<le> unat (v_scanline engine44) \<and> unat (v_scanline engine44) < 525"
    using header_flag_only_in_active_region [OF r44] by (simp add: engine44_fields)
  have b: "\<exists>s'. dma_irq_handler RGB565 [] engine1 = Inr s'
         \<and> read_addr (ch s' (ch_sel engine1)) = Addr_vblank_line_vsync_off
         \<and> tempbuf s' = tempbuf engine1 \<and> \<not> vactive_cmdlist_posted s'"
    using header_flag_only_in_active_region [OF r1]
    by (auto simp: engine1_fields handler_vsync_off)
  obtain s where r: "run RGB565 [] 1002 init_engine = Inr s"
    and v: "v_scanline s = 524" and f: "vactive_cmdlist_posted s"
    using run_1002 [of RGB565 "[]"] by auto
  have u: "45 \<le> unat (v_scanline s)" "unat (v_scanline s) < 525" using v by simp_all
  obtain s' where h: "dma_irq_handler RGB565 [] s = Inr s'" and z: "v_scanline s' = 0"
    using u f v by (simp add: handler_pixels_565)
  have "\<not> vactive_cmdlist_posted s'"
    using header_flag_only_in_active_region [OF r] h z v by auto
  with r v h z have c: "\<exists>s s'. run RGB565 [] 1002 init_engine = Inr s \<and> v_scanline s = 524
         \<and> dma_irq_handler RGB565 [] s = Inr s' \<and> v_scanline s' = 0
         \<and> \<not> vactive_cmdlist_posted s'" by blast
  from r44 r1 a b c show ?thesis by (simp add: engine44_fields engine1_fields)
qed


lemma run43: "run fmt fb 43 init_engine = Inr engine43"
  by (simp add: eval_simps engine43_def)

lemma engine43_fields:
  "dma_pong engine43 = True" "v_scanline engine43 = 45"
  "vactive_cmdlist_posted engine43 = False" "tempbuf engine43 = replicate 640 0"
  by (simp_all add: engine43_def init_fields)

lemma handler_engine43: "dma_irq_handler fmt fb engine43 = Inr engine44"
  by (simp add: eval_simps engine43_def engine44_def)

section \<open>Ping and pong\<close>

lemma transferring_eq: "transferring n = (if even n then DMACH_PING else DMACH_PONG)"
  by (induction n) (simp_all add: chain_to_def DMACH_PING_def DMACH_PONG_def)

lemma run_dma_pong:
  "engine_ok s \<Longrightarrow> run fmt fb n s = Inr t \<Longrightarrow> dma_pong t = (if even n then dma_pong s else \<not> dma_pong s)"
proof (induction n arbitrary: s)
  case 0
  then show ?case by simp
next
  case (Suc n)
  from Suc.prems(2) obtain s' where h: "dma_irq_handler fmt fb s = Inr s'"
    and r: "run fmt fb n s' = Inr t"
    by (auto split: sum.splits)
  from engine_step [OF Suc.prems(1) h] have ok: "engine_ok s'" by simp
  from Suc.IH [OF ok r] engine_step_fields(3) [OF Suc.prems(1) h] show ?case by simp
qed

lemma ch_sel_hw: "ch_sel (s\<lparr>ch := f, intr := w\<rparr>) = ch_sel s"
  by (simp add: ch_sel_def)

lemma handler_hw_independent:
  assumes "engine_ok s" "dma_irq_handler fmt fb s = Inr s'"
  shows "dma_irq_handler fmt fb (s\<lparr>ch := f, intr := w\<rparr>)
           = Inr (s'\<lparr>ch := f(ch_sel s := ch s' (ch_sel s))\<rparr>)"
  using assms(1)
proof (cases rule: engine_ok_cases)
  case vsync_on
  with assms(2) show ?thesis by (auto simp: handler_vsync_on ch_sel_hw)
next
  case vsync_off
  with assms(2) show ?thesis by (auto simp: handler_vsync_off ch_sel_hw)
next
  case header
  with assms(2) show ?thesis by (auto simp: handler_header ch_sel_hw)
next
  case pixels
  have l: "length (tempbuf s) = 640" using assms(1) by (simp add: engine_ok_def)
  show ?thesis
  proof (cases fmt)
    case RGB565
    with pixels assms(2) show ?thesis by (auto simp: handler_pixels_565 ch_sel_hw)
  next
    case RBG332
    show ?thesis
    proof (cases "(unat (v_scanline s) - 45) * 640 + 640 \<le> length fb")
      case True
      with pixels l RBG332 assms(2) show ?thesis by (auto simp: handler_pixels_332 ch_sel_hw)
    next
      case False
      with pixels l RBG332 assms(2) show ?thesis by (simp add: handler_pixels_332_fault)
    qed
  qed
qed

text \<open>
  C4. Every invocation of the handler writes the descriptor of exactly one channel, the
  one the parity flag \<open>dma_pong\<close> selects, and toggles the flag once; neither the choice
  nor what is written depends on the descriptors or on the interrupt register; so
  consecutive invocations reload alternating channels, and with the chaining configured
  in \<open>core1_main\<close> the channel reloaded by the invocation that serves completion
  \<open>n + 1\<close> is the one that just completed, never the one transferring meanwhile.
\<close>

theorem ping_pong_alternation:
  assumes "run fmt fb n init_engine = Inr s" and "dma_irq_handler fmt fb s = Inr s'"
  shows "ch s' = (ch s)(ch_sel s := ch s' (ch_sel s))
     \<and> dma_pong s' = (\<not> dma_pong s)
     \<and> ch_sel s' \<noteq> ch_sel s
     \<and> ch_sel s = transferring n
     \<and> ch_sel s \<noteq> transferring (Suc n)
     \<and> (\<exists>t. dma_irq_handler fmt fb (s\<lparr>ch := f, intr := w\<rparr>) = Inr t
            \<and> dma_pong t = dma_pong s' \<and> ch t = f(ch_sel s := ch s' (ch_sel s)))"
proof -
  have ok: "engine_ok s" using assms(1) by (rule reachable_ok)
  note fs = engine_step_fields [OF ok assms(2)]
  have p: "dma_pong s = odd n"
    using run_dma_pong [OF engine_ok_init assms(1)] by (simp add: init_fields)
  have a: "ch_sel s' \<noteq> ch_sel s"
    using fs(3) by (simp add: ch_sel_def DMACH_PING_def DMACH_PONG_def)
  have b: "ch_sel s = transferring n"
    using p by (simp add: ch_sel_def transferring_eq)
  have c: "ch_sel s \<noteq> transferring (Suc n)"
    using p by (simp add: ch_sel_def transferring_eq DMACH_PING_def DMACH_PONG_def)
  have d: "\<exists>t. dma_irq_handler fmt fb (s\<lparr>ch := f, intr := w\<rparr>) = Inr t
            \<and> dma_pong t = dma_pong s' \<and> ch t = f(ch_sel s := ch s' (ch_sel s))"
    using handler_hw_independent [OF ok assms(2), where f = f and w = w] by simp
  from fs(4) fs(3) a b c d show ?thesis by blast
qed

theorem ping_pong_alternation_witness:
  "run RBG332 [] 43 init_engine = Inr engine43
   \<and> dma_irq_handler RBG332 [] engine43 = Inr engine44
   \<and> ch_sel engine43 = DMACH_PONG \<and> ch_sel engine44 = DMACH_PING
   \<and> transferring 43 = DMACH_PONG \<and> transferring 44 = DMACH_PING
   \<and> ch engine44 = (ch engine43)(DMACH_PONG := ch engine44 DMACH_PONG)
   \<and> (\<exists>t. dma_irq_handler RBG332 [] (engine43\<lparr>ch := ch init_engine, intr := 0\<rparr>) = Inr t
          \<and> \<not> dma_pong t \<and> ch t = (ch init_engine)(DMACH_PONG := ch engine44 DMACH_PONG))"
proof -
  have r: "run RBG332 [] 43 init_engine = Inr engine43" by (rule run43)
  have h: "dma_irq_handler RBG332 [] engine43 = Inr engine44" by (rule handler_engine43)
  have s: "ch_sel engine43 = DMACH_PONG" "ch_sel engine44 = DMACH_PING"
    by (simp_all add: ch_sel_def engine43_fields engine44_fields)
  from ping_pong_alternation [OF r h, where f = "ch init_engine" and w = 0] r h s show ?thesis
    by (simp add: transferring_eq dmach_simps engine44_fields)
qed


section \<open>Two interrupts per active line\<close>

lemma next_line_word:
  fixes v :: u32
  assumes "unat v < 525"
  shows "(v + 1) mod 525 = (if unat v = 524 then 0 else v + 1)"
proof -
  have a: "unat (v + 1) = unat v + 1"
    using assms by (simp add: unat_word_ariths)
  have "unat ((v + 1) mod 525) = unat (if unat v = 524 then 0 else v + 1)"
    using assms a by (simp add: next_line_small)
  then show ?thesis by (simp only: word_unat_eq_iff)
qed

lemma fb0_length: "length (replicate 307200 (0::u8)) = framebuf_size fmt"
  by (cases fmt) (simp_all add: framebuf_size_eq)

lemma asset_length: "length (replicate 307200 (x::u8)) = framebuf_size fmt"
  by (cases fmt) (simp_all add: framebuf_size_eq)

text \<open>
  C1. In every state reached from the initial state, with an asset of the build's size:
  on an active scanline (45 or more) whose header is not yet posted the handler posts
  the header list, sets the flag and leaves the scanline index and the scratch row
  unchanged, and the next invocation posts the pixel row of that scanline, clears the
  flag and advances the index by one (from 524 to 0); on an active scanline whose header
  is posted it does the latter at once; on a blanking scanline the flag is clear, one
  invocation posts a blanking list and the index advances by one. So an active line
  takes two invocations for one increment. The pixel row posted is, in the one-byte
  build, the descriptor (\<open>tempbuf\<close>, 160 words) with the scratch row holding the 640
  bytes of the asset from index \<open>(v_scanline - 45) * 640\<close>, which lie inside the asset;
  in the two-byte build, the descriptor (\<open>&framebuf[row * 1280]\<close>, 320 words) with
  \<open>row = v_scanline - 284\<close> above scanline 283 and \<open>row = v_scanline - 45\<close> otherwise, a
  row below 240 on every scanline but 524.
\<close>

theorem two_irqs_per_active_line:
  assumes "length fb = framebuf_size fmt" and "run fmt fb n init_engine = Inr s"
  shows "\<exists>s'. dma_irq_handler fmt fb s = Inr s' \<and>
    (if 45 \<le> unat (v_scanline s) then
       if \<not> vactive_cmdlist_posted s then
         ch s' (ch_sel s) = \<lparr>read_addr = Addr_vactive_line, transfer_count = count_of vactive_line\<rparr>
         \<and> tempbuf s' = tempbuf s
         \<and> vactive_cmdlist_posted s' \<and> v_scanline s' = v_scanline s
         \<and> (\<exists>s''. dma_irq_handler fmt fb s' = Inr s''
               \<and> (case fmt of
                     RBG332 \<Rightarrow>
                       ch s'' (ch_sel s') = \<lparr>read_addr = Addr_tempbuf, transfer_count = 160\<rparr>
                       \<and> tempbuf s'' = take 640 (drop ((unat (v_scanline s) - 45) * 640) fb)
                       \<and> (unat (v_scanline s) - 45) * 640 + 640 \<le> length fb
                   | RGB565 \<Rightarrow>
                       ch s'' (ch_sel s') =
                         \<lparr>read_addr = Addr_framebuf
                            ((if 283 < unat (v_scanline s) then unat (v_scanline s) - 284
                              else unat (v_scanline s) - 45) * (640 * 2)),
                          transfer_count = 320\<rparr>
                       \<and> tempbuf s'' = tempbuf s
                       \<and> ((if 283 < unat (v_scanline s) then unat (v_scanline s) - 284
                            else unat (v_scanline s) - 45) < 240)
                          = (unat (v_scanline s) \<noteq> 524))
               \<and> \<not> vactive_cmdlist_posted s''
               \<and> v_scanline s'' = (if unat (v_scanline s) = 524 then 0 else v_scanline s + 1))
       else
         (case fmt of
            RBG332 \<Rightarrow>
              ch s' (ch_sel s) = \<lparr>read_addr = Addr_tempbuf, transfer_count = 160\<rparr>
              \<and> tempbuf s' = take 640 (drop ((unat (v_scanline s) - 45) * 640) fb)
              \<and> (unat (v_scanline s) - 45) * 640 + 640 \<le> length fb
          | RGB565 \<Rightarrow>
              ch s' (ch_sel s) =
                \<lparr>read_addr = Addr_framebuf
                   ((if 283 < unat (v_scanline s) then unat (v_scanline s) - 284
                     else unat (v_scanline s) - 45) * (640 * 2)),
                 transfer_count = 320\<rparr>
              \<and> tempbuf s' = tempbuf s
              \<and> ((if 283 < unat (v_scanline s) then unat (v_scanline s) - 284
                   else unat (v_scanline s) - 45) < 240)
                 = (unat (v_scanline s) \<noteq> 524))
         \<and> \<not> vactive_cmdlist_posted s'
         \<and> v_scanline s' = (if unat (v_scanline s) = 524 then 0 else v_scanline s + 1)
     else
       \<not> vactive_cmdlist_posted s \<and> \<not> vactive_cmdlist_posted s'
       \<and> v_scanline s' = v_scanline s + 1
       \<and> tempbuf s' = tempbuf s
       \<and> (ch s' (ch_sel s) = \<lparr>read_addr = Addr_vblank_line_vsync_on,
                                transfer_count = count_of vblank_line_vsync_on\<rparr>
          \<or> ch s' (ch_sel s) = \<lparr>read_addr = Addr_vblank_line_vsync_off,
                                transfer_count = count_of vblank_line_vsync_off\<rparr>))"
proof -
  have ok: "engine_ok s" using assms(2) by (rule reachable_ok)
  have pix: "\<exists>t'. dma_irq_handler fmt fb t = Inr t'
         \<and> (case fmt of
               RBG332 \<Rightarrow>
                 ch t' (ch_sel t) = \<lparr>read_addr = Addr_tempbuf, transfer_count = 160\<rparr>
                 \<and> tempbuf t' = take 640 (drop ((unat (v_scanline t) - 45) * 640) fb)
                 \<and> (unat (v_scanline t) - 45) * 640 + 640 \<le> length fb
             | RGB565 \<Rightarrow>
                 ch t' (ch_sel t) =
                   \<lparr>read_addr = Addr_framebuf
                      ((if 283 < unat (v_scanline t) then unat (v_scanline t) - 284
                        else unat (v_scanline t) - 45) * (640 * 2)),
                    transfer_count = 320\<rparr>
                 \<and> tempbuf t' = tempbuf t
                 \<and> ((if 283 < unat (v_scanline t) then unat (v_scanline t) - 284
                      else unat (v_scanline t) - 45) < 240)
                    = (unat (v_scanline t) \<noteq> 524))
         \<and> \<not> vactive_cmdlist_posted t'
         \<and> v_scanline t' = (if unat (v_scanline t) = 524 then 0 else v_scanline t + 1)"
    if t: "45 \<le> unat (v_scanline t)" "unat (v_scanline t) < 525" "vactive_cmdlist_posted t"
      "length (tempbuf t) = 640" for t
  proof (cases fmt)
    case RGB565
    have "((if 283 < unat (v_scanline t) then unat (v_scanline t) - 284
            else unat (v_scanline t) - 45) < 240) = (unat (v_scanline t) \<noteq> 524)"
      using t(1,2) by auto
    with t RGB565 show ?thesis by (simp add: handler_pixels_565 next_line_word)
  next
    case RBG332
    have "(unat (v_scanline t) - 45) * 640 + 640 \<le> length fb"
      using t assms(1) RBG332 by (simp add: framebuf_size_eq)
    with t RBG332 show ?thesis by (simp add: handler_pixels_332 next_line_word)
  qed
  from ok show ?thesis
  proof (cases rule: engine_ok_cases)
    case vsync_on
    then show ?thesis by (simp add: handler_vsync_on count_of_tables next_line_word)
  next
    case vsync_off
    then show ?thesis by (simp add: handler_vsync_off count_of_tables next_line_word)
  next
    case header
    have l: "length (tempbuf s) = 640" using ok by (simp add: engine_ok_def)
    obtain s' where h: "dma_irq_handler fmt fb s = Inr s'"
      and f: "v_scanline s' = v_scanline s" "vactive_cmdlist_posted s'"
        "tempbuf s' = tempbuf s"
        "ch s' (ch_sel s) = \<lparr>read_addr = Addr_vactive_line, transfer_count = 9\<rparr>"
      using header by (simp add: handler_header)
    have l': "length (tempbuf s') = 640" using l f(3) by simp
    note p = pix [of s', unfolded f(1) f(3), OF header(1,2) f(2) l]
    from h f header p show ?thesis by (simp add: count_of_tables)
  next
    case pixels
    have l: "length (tempbuf s) = 640" using ok by (simp add: engine_ok_def)
    from pix [OF pixels l] pixels show ?thesis by simp
  qed
qed

theorem two_irqs_per_active_line_witness:
  "length (replicate 307200 (7::u8)) = framebuf_size RBG332
   \<and> run RBG332 (replicate 307200 7) 43 init_engine = Inr engine43
   \<and> unat (v_scanline engine43) = 45 \<and> \<not> vactive_cmdlist_posted engine43
   \<and> (\<exists>s'. dma_irq_handler RBG332 (replicate 307200 7) engine43 = Inr s'
         \<and> ch s' (ch_sel engine43) = \<lparr>read_addr = Addr_vactive_line, transfer_count = 9\<rparr>
         \<and> tempbuf s' = replicate 640 0
         \<and> vactive_cmdlist_posted s' \<and> v_scanline s' = 45
         \<and> (\<exists>s''. dma_irq_handler RBG332 (replicate 307200 7) s' = Inr s''
               \<and> ch s'' (ch_sel s') = \<lparr>read_addr = Addr_tempbuf, transfer_count = 160\<rparr>
               \<and> tempbuf s'' = replicate 640 7
               \<and> \<not> vactive_cmdlist_posted s'' \<and> v_scanline s'' = 46))"
proof -
  have l: "length (replicate 307200 (7::u8)) = framebuf_size RBG332" by (rule asset_length)
  have r: "run RBG332 (replicate 307200 7) 43 init_engine = Inr engine43" by (rule run43)
  from two_irqs_per_active_line [OF l r] l r show ?thesis
    by (simp add: engine43_fields count_of_tables)
qed

section \<open>The scratch copy\<close>

text \<open>
  C10. In the one-byte build with the 640 x 480 asset, in every reachable state whose
  header flag is set (a pixel-phase state) the handler does not fault: the copy reads
  the asset at the indices \<open>(v_scanline - 45) * 640 + j\<close> for \<open>j < 640\<close>, all below
  \<open>640 * 480 = 307200\<close>, the scratch row is again 640 bytes long and holds exactly these
  bytes, and the posted transfer count of 160 words of 4 bytes is the length of the
  scratch row.
\<close>

theorem scratch_copy_in_bounds:
  assumes "length fb = framebuf_size RBG332"
    and "run RBG332 fb n init_engine = Inr s"
    and "vactive_cmdlist_posted s"
  shows "\<exists>s'. dma_irq_handler RBG332 fb s = Inr s'
     \<and> 45 \<le> unat (v_scanline s)
     \<and> length (tempbuf s') = 640
     \<and> (\<forall>j<640. (unat (v_scanline s) - 45) * 640 + j < 640 * 480
            \<and> (unat (v_scanline s) - 45) * 640 + j < length fb
            \<and> tempbuf s' ! j = fb ! ((unat (v_scanline s) - 45) * 640 + j))
     \<and> ch s' (ch_sel s) = \<lparr>read_addr = Addr_tempbuf, transfer_count = 160\<rparr>
     \<and> unat (transfer_count (ch s' (ch_sel s))) * 4 = length (tempbuf s')"
proof -
  have ok: "engine_ok s" using assms(2) by (rule reachable_ok)
  then have v: "45 \<le> unat (v_scanline s)" "unat (v_scanline s) < 525"
    and l: "length (tempbuf s) = 640"
    using assms(3) by (simp_all add: engine_ok_def)
  let ?b = "(unat (v_scanline s) - 45) * 640"
  have fit: "?b + 640 \<le> length fb"
    using v assms(1) by (simp add: framebuf_size_eq)
  have fb: "length fb = 307200" using assms(1) by (simp add: framebuf_size_eq)
  have h: "dma_irq_handler RBG332 fb s =
     Inr (s\<lparr>intr := push_bit (ch_sel s) 1,
            dma_pong := \<not> dma_pong s,
            ch := (ch s)(ch_sel s := \<lparr>read_addr = Addr_tempbuf, transfer_count = 160\<rparr>),
            tempbuf := take 640 (drop ?b fb),
            vactive_cmdlist_posted := False,
            v_scanline := (v_scanline s + 1) mod 525\<rparr>)"
    using v assms(3) l fit by (rule handler_pixels_332)
  have len: "length (take 640 (drop ?b fb)) = 640"
    using fit by simp
  have el: "?b + j < 640 * 480 \<and> ?b + j < length fb
      \<and> take 640 (drop ?b fb) ! j = fb ! (?b + j)" if "j < 640" for j
    using that fit fb by simp
  show ?thesis
    unfolding h using v len el by simp
qed

theorem scratch_copy_in_bounds_witness:
  "length (replicate 307200 (0::u8)) = framebuf_size RBG332
   \<and> run RBG332 (replicate 307200 0) 44 init_engine = Inr engine44
   \<and> vactive_cmdlist_posted engine44
   \<and> (\<exists>s'. dma_irq_handler RBG332 (replicate 307200 0) engine44 = Inr s'
         \<and> length (tempbuf s') = 640
         \<and> (45 - 45) * 640 + 639 < (640 * 480 :: nat)
         \<and> tempbuf s' ! 639 = replicate 307200 0 ! ((45 - 45) * 640 + 639)
         \<and> ch s' (ch_sel engine44) = \<lparr>read_addr = Addr_tempbuf, transfer_count = 160\<rparr>
         \<and> unat (transfer_count (ch s' (ch_sel engine44))) * 4 = length (tempbuf s'))"
proof -
  have l: "length (replicate 307200 (0::u8)) = framebuf_size RBG332" by (rule fb0_length)
  have r: "run RBG332 (replicate 307200 0) 44 init_engine = Inr engine44" by (rule run44)
  have f: "vactive_cmdlist_posted engine44" by (simp add: engine44_fields)
  from scratch_copy_in_bounds [OF l r f]
  obtain s' where h: "dma_irq_handler RBG332 (replicate 307200 0) engine44 = Inr s'"
    and a: "length (tempbuf s') = 640"
    and b: "\<forall>j<640. (unat (v_scanline engine44) - 45) * 640 + j < 640 * 480
            \<and> (unat (v_scanline engine44) - 45) * 640 + j < length (replicate 307200 (0::u8))
            \<and> tempbuf s' ! j = replicate 307200 0 ! ((unat (v_scanline engine44) - 45) * 640 + j)"
    and c: "ch s' (ch_sel engine44) = \<lparr>read_addr = Addr_tempbuf, transfer_count = 160\<rparr>"
    and d: "unat (transfer_count (ch s' (ch_sel engine44))) * 4 = length (tempbuf s')"
    by blast
  from b have "tempbuf s' ! 639 = replicate 307200 0 ! ((45 - 45) * 640 + 639)"
    by (simp add: engine44_fields)
  with l r f h a c d show ?thesis by simp
qed


section \<open>Periodicity\<close>

lemma payload_pixels_332:
  assumes "45 \<le> unat (v_scanline s)" "unat (v_scanline s) < 525" "vactive_cmdlist_posted s"
    and "length (tempbuf s) = 640"
  shows "payload RBG332 fb s =
     (if (unat (v_scanline s) - 45) * 640 + 640 \<le> length fb
      then Some (\<lparr>read_addr = Addr_tempbuf, transfer_count = 160\<rparr>,
                 take 640 (drop ((unat (v_scanline s) - 45) * 640) fb))
      else None)"
  using assms by (simp add: payload_def handler_pixels_332 handler_pixels_332_fault)

lemma payload_pixels_565:
  assumes "45 \<le> unat (v_scanline s)" "unat (v_scanline s) < 525" "vactive_cmdlist_posted s"
  shows "payload RGB565 fb s =
     Some (\<lparr>read_addr = Addr_framebuf (if 283 < unat (v_scanline s)
                              then (unat (v_scanline s) - 284) * 1280
                              else (unat (v_scanline s) - 45) * 1280),
             transfer_count = 320\<rparr>, [])"
  using assms by (simp add: payload_def handler_pixels_565)

lemma payload_cong:
  assumes "engine_ok s" "engine_ok t" "v_scanline s = v_scanline t"
    and "vactive_cmdlist_posted s = vactive_cmdlist_posted t"
  shows "payload fmt fb s = payload fmt fb t"
  using assms(1)
proof (cases rule: engine_ok_cases)
  case vsync_on
  with assms show ?thesis by (simp add: payload_vsync_on)
next
  case vsync_off
  with assms show ?thesis by (simp add: payload_vsync_off)
next
  case header
  with assms show ?thesis by (simp add: payload_header)
next
  case pixels
  have l: "length (tempbuf s) = 640" "length (tempbuf t) = 640"
    using assms(1,2) by (simp_all add: engine_ok_def)
  show ?thesis
  proof (cases fmt)
    case RBG332
    with pixels l assms(3,4) show ?thesis by (simp add: payload_pixels_332)
  next
    case RGB565
    with pixels assms(3,4) show ?thesis by (simp add: payload_pixels_565)
  qed
qed

lemma irq_slot_less: "engine_ok s \<Longrightarrow> irq_slot s < 1005"
  unfolding engine_ok_def irq_slot_def by (auto split: if_splits)

lemma run_slot:
  assumes "engine_ok s" "length fb = framebuf_size fmt"
  shows "\<exists>t. run fmt fb k s = Inr t \<and> engine_ok t \<and> irq_slot t = (irq_slot s + k) mod 1005"
proof -
  from run_total [OF assms] obtain t where t: "run fmt fb k s = Inr t" by blast
  from run_engine_ok [OF assms(1) t] t show ?thesis by (auto simp: irqs_per_frame_eq)
qed

lemma payloads_nth:
  "k < n \<Longrightarrow> payloads fmt fb n s ! k =
     (case run fmt fb k s of Inl e \<Rightarrow> None | Inr t \<Rightarrow> payload fmt fb t)"
  by (simp add: payloads_def)

lemma payloads_length: "length (payloads fmt fb n s) = n"
  by (simp add: payloads_def)

lemma payloads_period:
  assumes "engine_ok s" "length fb = framebuf_size fmt" "k < n" "k + 1005 < n'"
  shows "payloads fmt fb n' s ! (k + 1005) = payloads fmt fb n s ! k"
proof -
  from run_slot [OF assms(1,2), of k] obtain t where t: "run fmt fb k s = Inr t"
    "engine_ok t" "irq_slot t = (irq_slot s + k) mod 1005" by blast
  from run_slot [OF assms(1,2), of "k + 1005"] obtain u where u: "run fmt fb (k + 1005) s = Inr u"
    "engine_ok u" "irq_slot u = (irq_slot s + (k + 1005)) mod 1005" by blast
  have "irq_slot t = irq_slot u" using t(3) u(3) by (simp add: add.assoc [symmetric])
  from irq_slot_inj [OF t(2) u(2) this] have "payload fmt fb t = payload fmt fb u"
    by (intro payload_cong t u) simp_all
  then show ?thesis using assms(3,4) t(1) u(1) by (simp add: payloads_nth)
qed

lemma payloads_Some:
  assumes "engine_ok s" "length fb = framebuf_size fmt"
  shows "None \<notin> set (payloads fmt fb n s)"
proof
  assume "None \<in> set (payloads fmt fb n s)"
  then obtain k where k: "k < n" "payloads fmt fb n s ! k = None"
    by (auto simp: in_set_conv_nth payloads_length)
  from run_slot [OF assms, of k] obtain t where t: "run fmt fb k s = Inr t" "engine_ok t"
    by blast
  from engine_step_total [OF t(2) assms(2)] obtain t' where "dma_irq_handler fmt fb t = Inr t'"
    by blast
  then have "payload fmt fb t \<noteq> None" by (simp add: payload_def)
  with k t(1) show False by (simp add: payloads_nth)
qed

text \<open>
  C7. One vertical period is \<open>45 + 2 * 480 = 1005\<close> invocations (one per blanking line,
  two per active line). From every reachable state, with an asset of the build's size,
  the payloads (descriptor written and bytes staged) of two periods of invocations are
  the payloads of one period twice, none of the invocations faults, the pair
  (\<open>v_scanline\<close>, \<open>vactive_cmdlist_posted\<close>) is back at its starting value after one
  period, and it is not back after any smaller positive number of invocations.
\<close>

theorem frame_periodic:
  assumes "length fb = framebuf_size fmt" and "run fmt fb m init_engine = Inr s"
  shows "irqs_per_frame = 45 + 2 * 480
     \<and> payloads fmt fb (2 * irqs_per_frame) s
         = payloads fmt fb irqs_per_frame s @ payloads fmt fb irqs_per_frame s
     \<and> None \<notin> set (payloads fmt fb (2 * irqs_per_frame) s)
     \<and> (\<exists>t. run fmt fb irqs_per_frame s = Inr t \<and> v_scanline t = v_scanline s
            \<and> vactive_cmdlist_posted t = vactive_cmdlist_posted s)
     \<and> (\<forall>k. 0 < k \<and> k < irqs_per_frame \<longrightarrow>
           (\<exists>t. run fmt fb k s = Inr t
              \<and> (v_scanline t \<noteq> v_scanline s
                  \<or> vactive_cmdlist_posted t \<noteq> vactive_cmdlist_posted s)))"
proof -
  have ok: "engine_ok s" using assms(2) by (rule reachable_ok)
  have sl: "irq_slot s < 1005" using ok by (rule irq_slot_less)
  have a: "payloads fmt fb 2010 s = payloads fmt fb 1005 s @ payloads fmt fb 1005 s"
  proof (rule nth_equalityI)
    show "length (payloads fmt fb 2010 s)
        = length (payloads fmt fb 1005 s @ payloads fmt fb 1005 s)"
      by (simp add: payloads_length)
  next
    fix i assume "i < length (payloads fmt fb 2010 s)"
    then have i: "i < 2010" by (simp add: payloads_length)
    show "payloads fmt fb 2010 s ! i = (payloads fmt fb 1005 s @ payloads fmt fb 1005 s) ! i"
    proof (cases "i < 1005")
      case True
      then show ?thesis using i by (simp add: nth_append payloads_length payloads_nth)
    next
      case False
      then have "i = (i - 1005) + 1005" "i - 1005 < 1005" "(i - 1005) + 1005 < 2010"
        using i by simp_all
      with payloads_period [OF ok assms(1), of "i - 1005" 1005 2010] False
      show ?thesis by (simp add: nth_append payloads_length)
    qed
  qed
  have b: "None \<notin> set (payloads fmt fb 2010 s)"
    using ok assms(1) by (rule payloads_Some)
  have c: "\<exists>t. run fmt fb 1005 s = Inr t \<and> v_scanline t = v_scanline s
            \<and> vactive_cmdlist_posted t = vactive_cmdlist_posted s"
  proof -
    from run_slot [OF ok assms(1), of 1005] obtain t where t: "run fmt fb 1005 s = Inr t"
      "engine_ok t" "irq_slot t = (irq_slot s + 1005) mod 1005" by blast
    from t(3) sl have "irq_slot t = irq_slot s" by simp
    from irq_slot_inj [OF t(2) ok this] t(1) show ?thesis by blast
  qed
  have d: "\<exists>t. run fmt fb k s = Inr t
              \<and> (v_scanline t \<noteq> v_scanline s
                  \<or> vactive_cmdlist_posted t \<noteq> vactive_cmdlist_posted s)"
    if k: "0 < k \<and> k < 1005" for k
  proof -
    from run_slot [OF ok assms(1), of k] obtain t where t: "run fmt fb k s = Inr t"
      "engine_ok t" "irq_slot t = (irq_slot s + k) mod 1005" by blast
    have "irq_slot t \<noteq> irq_slot s"
    proof (cases "irq_slot s + k < 1005")
      case True
      with t(3) k show ?thesis by simp
    next
      case False
      then have "(irq_slot s + k) mod 1005 = irq_slot s + k - 1005"
        using sl k by (simp add: mod_if)
      with t(3) k sl False show ?thesis by simp
    qed
    moreover have "irq_slot t = irq_slot s"
      if "v_scanline t = v_scanline s" "vactive_cmdlist_posted t = vactive_cmdlist_posted s"
      unfolding irq_slot_def that ..
    ultimately have "v_scanline t \<noteq> v_scanline s
                  \<or> vactive_cmdlist_posted t \<noteq> vactive_cmdlist_posted s"
      by blast
    with t(1) show ?thesis by blast
  qed
  have e: "irqs_per_frame = 1005" "2 * irqs_per_frame = 2010"
    by (simp_all add: irqs_per_frame_eq)
  show ?thesis unfolding e using a b c d by simp
qed

theorem frame_periodic_witness:
  "length (replicate 307200 (0::u8)) = framebuf_size RBG332
   \<and> run RBG332 (replicate 307200 0) 1 init_engine = Inr engine1
   \<and> payloads RBG332 (replicate 307200 0) (2 * irqs_per_frame) engine1
       = payloads RBG332 (replicate 307200 0) irqs_per_frame engine1
         @ payloads RBG332 (replicate 307200 0) irqs_per_frame engine1
   \<and> (\<exists>t. run RBG332 (replicate 307200 0) irqs_per_frame engine1 = Inr t \<and> v_scanline t = 3
          \<and> \<not> vactive_cmdlist_posted t)
   \<and> 0 < (42::nat) \<and> 42 < irqs_per_frame
   \<and> (\<exists>t. run RBG332 (replicate 307200 0) 42 engine1 = Inr t
          \<and> (vactive_cmdlist_posted t \<or> v_scanline t \<noteq> 3))"
proof -
  have l: "length (replicate 307200 (0::u8)) = framebuf_size RBG332" by (rule fb0_length)
  have r: "run RBG332 (replicate 307200 0) 1 init_engine = Inr engine1" by (rule run1)
  have k: "0 < (42::nat) \<and> 42 < irqs_per_frame" by (simp add: irqs_per_frame_eq)
  note p = frame_periodic [OF l r]
  from p have a: "payloads RBG332 (replicate 307200 0) (2 * irqs_per_frame) engine1
       = payloads RBG332 (replicate 307200 0) irqs_per_frame engine1
         @ payloads RBG332 (replicate 307200 0) irqs_per_frame engine1" by blast
  from p have b: "\<exists>t. run RBG332 (replicate 307200 0) irqs_per_frame engine1 = Inr t
      \<and> v_scanline t = 3 \<and> \<not> vactive_cmdlist_posted t"
    by (simp add: engine1_fields)
  from p have "\<forall>k. 0 < k \<and> k < irqs_per_frame \<longrightarrow>
      (\<exists>t. run RBG332 (replicate 307200 0) k engine1 = Inr t
         \<and> (v_scanline t \<noteq> v_scanline engine1
             \<or> vactive_cmdlist_posted t \<noteq> vactive_cmdlist_posted engine1))" by blast
  from this [rule_format, OF k] obtain t
    where "run RBG332 (replicate 307200 0) 42 engine1 = Inr t"
      and "v_scanline t \<noteq> v_scanline engine1
           \<or> vactive_cmdlist_posted t \<noteq> vactive_cmdlist_posted engine1" by blast
  then have c: "\<exists>t. run RBG332 (replicate 307200 0) 42 engine1 = Inr t
      \<and> (vactive_cmdlist_posted t \<or> v_scanline t \<noteq> 3)"
    by (auto simp: engine1_fields)
  from l r a b k c show ?thesis by blast
qed


section \<open>Pixel rows of the two-byte build\<close>

lemma rgb565_rows_before_last_line:
  assumes "engine_ok s" "vactive_cmdlist_posted s" "unat (v_scanline s) \<le> 523"
  shows "\<exists>s' row. dma_irq_handler RGB565 fb s = Inr s'
     \<and> row = (if 283 < unat (v_scanline s) then unat (v_scanline s) - 284
              else unat (v_scanline s) - 45)
     \<and> ch s' (ch_sel s) = \<lparr>read_addr = Addr_framebuf (row * (640 * 2)), transfer_count = 320\<rparr>
     \<and> row < 240 \<and> row * (640 * 2) + 4 * 320 \<le> framebuf_size RGB565"
proof -
  from assms have u: "45 \<le> unat (v_scanline s)" "unat (v_scanline s) < 525"
    by (simp_all add: engine_ok_def)
  with assms(2,3) show ?thesis
    by (auto simp: handler_pixels_565 framebuf_size_eq)
qed

text \<open>
  C2. Specified: for every active scanline \<open>i\<close> the pixel row posted is image row
  \<open>i - 45\<close>, through the scratch row in the one-byte build; in the two-byte build rows
  come straight from the 240-row asset, the lower half of the frame re-reading it by an
  index-range test, every row read lying inside the asset. The code breaks the last
  part: in the two-byte build the state with scanline 524 and the header posted is
  reached after 1002 invocations, and there the handler posts the address of row 240,
  which starts exactly at the end of the asset of \<open>240 * 1280\<close> bytes, for a transfer
  of 320 words.
\<close>

theorem rgb565_last_line_reads_past_asset:
  "\<exists>s s'. run RGB565 fb 1002 init_engine = Inr s
     \<and> v_scanline s = 524 \<and> vactive_cmdlist_posted s
     \<and> dma_irq_handler RGB565 fb s = Inr s'
     \<and> ch s' (ch_sel s) = \<lparr>read_addr = Addr_framebuf (240 * (640 * 2)), transfer_count = 320\<rparr>
     \<and> framebuf_size RGB565 = 240 * (640 * 2)"
proof -
  obtain s where r: "run RGB565 fb 1002 init_engine = Inr s"
    and v: "v_scanline s = 524" and f: "vactive_cmdlist_posted s"
    using run_1002 [of RGB565 fb] by auto
  have u: "45 \<le> unat (v_scanline s)" "unat (v_scanline s) < 525" using v by simp_all
  obtain s' where h: "dma_irq_handler RGB565 fb s = Inr s'"
    and c: "ch s' (ch_sel s) = \<lparr>read_addr = Addr_framebuf (240 * (640 * 2)), transfer_count = 320\<rparr>"
    using u f v by (simp add: handler_pixels_565)
  from r v f h c show ?thesis by (auto simp: framebuf_size_eq)
qed


end
